theory Spec2Isabelle
  imports Complex_Main
begin

section \<open>JavaScript values as the validators see them\<close>

text \<open>
  The validators of \<^verbatim>\<open>src/modules/lint.ts\<close> work on the plain JavaScript values that
  \<^verbatim>\<open>YAML.parse\<close> returns: null, booleans, numbers, strings, arrays and objects.  An object
  is the list of its own enumerable properties in the order \<^verbatim>\<open>Object.keys\<close> lists them.
  Strings are lists of 8-bit characters; the line terminators in that range are LF and CR.
\<close>

datatype jsnum = NaN | PosInfinity | NegInfinity | Finite rat

datatype jsval =
    Undefined
  | Null
  | Bool bool
  | Num jsnum
  | Str string
  | Arr "jsval list"
  | Obj "(string \<times> jsval) list"

datatype exn = TypeError

definition bindE :: "('e + 'a) \<Rightarrow> ('a \<Rightarrow> 'e + 'b) \<Rightarrow> 'e + 'b" where
  "bindE m f = (case m of Inl e \<Rightarrow> Inl e | Inr x \<Rightarrow> f x)"

text \<open>\<^verbatim>\<open>typeof v\<close>.\<close>

fun typeof :: "jsval \<Rightarrow> string" where
  "typeof Undefined = ''undefined''"
| "typeof Null = ''object''"
| "typeof (Bool b) = ''boolean''"
| "typeof (Num n) = ''number''"
| "typeof (Str s) = ''string''"
| "typeof (Arr xs) = ''object''"
| "typeof (Obj kvs) = ''object''"

text \<open>Truthiness, as \<^verbatim>\<open>if (v)\<close>, \<^verbatim>\<open>!v\<close> and \<^verbatim>\<open>v && ...\<close> read it.\<close>

fun truthy :: "jsval \<Rightarrow> bool" where
  "truthy Undefined = False"
| "truthy Null = False"
| "truthy (Bool b) = b"
| "truthy (Num NaN) = False"
| "truthy (Num (Finite q)) = (q \<noteq> 0)"
| "truthy (Num n) = True"
| "truthy (Str s) = (s \<noteq> [])"
| "truthy (Arr xs) = True"
| "truthy (Obj kvs) = True"

text \<open>\<^verbatim>\<open>v ?? d\<close>.\<close>

fun nullish :: "jsval \<Rightarrow> bool" where
  "nullish Undefined = True"
| "nullish Null = True"
| "nullish v = False"

definition coalesce :: "jsval \<Rightarrow> jsval \<Rightarrow> jsval" where
  "coalesce v d = (if nullish v then d else v)"

text \<open>Decimal rendering of an array index.\<close>

definition digit :: "nat \<Rightarrow> char" where
  "digit d = char_of (48 + d)"

fun show_nat :: "nat \<Rightarrow> string" where
  "show_nat n = (if n < 10 then [digit n] else show_nat (n div 10) @ [digit (n mod 10)])"

declare show_nat.simps [simp del]

text \<open>
  The own enumerable string-keyed properties of a value, in enumeration order: the
  properties of an object, the indices of an array, the code units of a string.
\<close>

fun ownEntries :: "jsval \<Rightarrow> (string \<times> jsval) list" where
  "ownEntries (Obj kvs) = kvs"
| "ownEntries (Arr xs) = zip (map show_nat [0 ..< length xs]) xs"
| "ownEntries (Str s) = zip (map show_nat [0 ..< length s]) (map (\<lambda>c. Str [c]) s)"
| "ownEntries v = []"

text \<open>\<^verbatim>\<open>Object.entries(v)\<close> and \<^verbatim>\<open>Object.keys(v)\<close>; both throw on null and undefined.\<close>

definition Object_entries :: "jsval \<Rightarrow> exn + (string \<times> jsval) list" where
  "Object_entries v = (if nullish v then Inl TypeError else Inr (ownEntries v))"

definition Object_keys :: "jsval \<Rightarrow> exn + string list" where
  "Object_keys v = (if nullish v then Inl TypeError else Inr (map fst (ownEntries v)))"

text \<open>
  Property read \<^verbatim>\<open>v[k]\<close> (and \<^verbatim>\<open>v.k\<close>): a TypeError on null and undefined, the own
  property when there is one, undefined otherwise.  The validators read the fixed names
  services, image, environment, labels, extra_hosts, volumes, source, target and
  submission, and the keys \<^verbatim>\<open>Object.keys\<close> returned; none of them is inherited from a
  prototype.
\<close>

definition getProp :: "jsval \<Rightarrow> string \<Rightarrow> exn + jsval" where
  "getProp v k =
     (if nullish v then Inl TypeError
      else (case map_of (ownEntries v) k of None \<Rightarrow> Inr Undefined | Some x \<Rightarrow> Inr x))"

text \<open>\<^verbatim>\<open>k in v\<close>: a TypeError unless \<open>v\<close> is an object.\<close>

fun js_in :: "string \<Rightarrow> jsval \<Rightarrow> exn + bool" where
  "js_in k (Obj kvs) = Inr (k \<in> set (map fst kvs))"
| "js_in k (Arr xs) = Inr (k \<in> set (map show_nat [0 ..< length xs]))"
| "js_in k v = Inl TypeError"

text \<open>\<^verbatim>\<open>Array.isArray(v)\<close>.\<close>

fun isArray :: "jsval \<Rightarrow> bool" where
  "isArray (Arr xs) = True"
| "isArray v = False"

fun elements :: "jsval \<Rightarrow> jsval list" where
  "elements (Arr xs) = xs"
| "elements v = []"

text \<open>\<^verbatim>\<open>xs.join(sep)\<close> on strings, and \<^verbatim>\<open>s.split(c)\<close> at a one-character separator.\<close>

fun join :: "string \<Rightarrow> string list \<Rightarrow> string" where
  "join sep [] = []"
| "join sep [x] = x"
| "join sep (x # y # ys) = x @ sep @ join sep (y # ys)"

fun split :: "char \<Rightarrow> string \<Rightarrow> string list" where
  "split c [] = [[]]"
| "split c (x # xs) =
     (if x = c then [] # split c xs
      else (case split c xs of [] \<Rightarrow> [[x]] | y # ys \<Rightarrow> (x # y) # ys))"

text \<open>\<^verbatim>\<open>xs[i]\<close> on an array of strings: undefined (\<open>None\<close>) out of range.\<close>

definition nth_opt :: "'a list \<Rightarrow> nat \<Rightarrow> 'a option" where
  "nth_opt xs i = (if i < length xs then Some (xs ! i) else None)"

text \<open>
  String conversion, as a template literal applies it.  The rendering of a number is a
  parameter.
\<close>

fun ToString :: "(jsnum \<Rightarrow> string) \<Rightarrow> jsval \<Rightarrow> string" where
  "ToString f Undefined = ''undefined''"
| "ToString f Null = ''null''"
| "ToString f (Bool b) = (if b then ''true'' else ''false'')"
| "ToString f (Num n) = f n"
| "ToString f (Str s) = s"
| "ToString f (Arr xs) = join '','' (map (\<lambda>x. if nullish x then [] else ToString f x) xs)"
| "ToString f (Obj kvs) = ''[object Object]''"

section \<open>Regular expressions\<close>

text \<open>
  The six regular expressions of the compose validator use literal characters, the dot,
  the quantifiers \<^verbatim>\<open>?\<close>, \<^verbatim>\<open>+\<close> (greedy) and \<^verbatim>\<open>*?\<close> (lazy) on a single character class,
  capture groups around one quantified class, and the anchors.  The matcher is the
  backtracking matcher of ECMAScript: a greedy quantifier tries one more repetition
  before it tries the rest of the pattern, a lazy one tries the rest first.
\<close>

datatype cls = Lit char | Dot

datatype quant = Once | Opt | Plus | LazyStar

datatype node = Bol | Eol | Atom cls quant | Cap cls quant

definition LineTerminator :: "char \<Rightarrow> bool" where
  "LineTerminator c = (c = CHR 0x0A \<or> c = CHR 0x0D)"

fun accepts :: "cls \<Rightarrow> char \<Rightarrow> bool" where
  "accepts (Lit a) c = (c = a)"
| "accepts Dot c = (\<not> LineTerminator c)"

fun greedy :: "cls \<Rightarrow> (string \<Rightarrow> string \<Rightarrow> 'r option) \<Rightarrow> string \<Rightarrow> string \<Rightarrow> 'r option" where
  "greedy c k acc [] = k acc []"
| "greedy c k acc (x # xs) =
     (if accepts c x
      then (case greedy c k (acc @ [x]) xs of Some r \<Rightarrow> Some r | None \<Rightarrow> k acc (x # xs))
      else k acc (x # xs))"

fun lazy :: "cls \<Rightarrow> (string \<Rightarrow> string \<Rightarrow> 'r option) \<Rightarrow> string \<Rightarrow> string \<Rightarrow> 'r option" where
  "lazy c k acc [] = k acc []"
| "lazy c k acc (x # xs) =
     (case k acc (x # xs) of
        Some r \<Rightarrow> Some r
      | None \<Rightarrow> (if accepts c x then lazy c k (acc @ [x]) xs else None))"

fun quantified :: "cls \<Rightarrow> quant \<Rightarrow> (string \<Rightarrow> string \<Rightarrow> 'r option) \<Rightarrow> string \<Rightarrow> 'r option" where
  "quantified c Once k [] = None"
| "quantified c Once k (x # xs) = (if accepts c x then k [x] xs else None)"
| "quantified c Opt k [] = k [] []"
| "quantified c Opt k (x # xs) =
     (if accepts c x
      then (case k [x] xs of Some r \<Rightarrow> Some r | None \<Rightarrow> k [] (x # xs))
      else k [] (x # xs))"
| "quantified c Plus k [] = None"
| "quantified c Plus k (x # xs) = (if accepts c x then greedy c k [x] xs else None)"
| "quantified c LazyStar k s = lazy c k [] s"

text \<open>
  One pattern element against the input at the current position.  The flag says whether
  the position is the start of the input, the list holds the captures made so far.
\<close>

fun step :: "node \<Rightarrow> (bool \<Rightarrow> string \<Rightarrow> string list \<Rightarrow> 'r option) \<Rightarrow>
    bool \<Rightarrow> string \<Rightarrow> string list \<Rightarrow> 'r option" where
  "step Bol k st s caps = (if st then k st s caps else None)"
| "step Eol k st s caps = (if s = [] then k st s caps else None)"
| "step (Atom c q) k st s caps = quantified c q (\<lambda>m rest. k (st \<and> m = []) rest caps) s"
| "step (Cap c q) k st s caps = quantified c q (\<lambda>m rest. k (st \<and> m = []) rest (caps @ [m])) s"

primrec run :: "node list \<Rightarrow> bool \<Rightarrow> string \<Rightarrow> string list \<Rightarrow> (string list \<times> string) option" where
  "run [] = (\<lambda>st s caps. Some (caps, s))"
| "run (n # ns) = step n (run ns)"

text \<open>
  \<^verbatim>\<open>RegExp.prototype.exec\<close> without the global flag: the first start index at which the
  pattern matches.  The result is the matched text followed by the captures.
\<close>

fun exec_from :: "node list \<Rightarrow> bool \<Rightarrow> string \<Rightarrow> string list option" where
  "exec_from ns st [] =
     (case run ns st [] [] of
        Some (caps, rest) \<Rightarrow> Some ([] # caps)
      | None \<Rightarrow> None)"
| "exec_from ns st (x # xs) =
     (case run ns st (x # xs) [] of
        Some (caps, rest) \<Rightarrow> Some (take (length (x # xs) - length rest) (x # xs) # caps)
      | None \<Rightarrow> exec_from ns False xs)"

text \<open>\<^verbatim>\<open>s.match(re)\<close>.\<close>

definition String_match :: "string \<Rightarrow> node list \<Rightarrow> string list option" where
  "String_match s re = exec_from re True s"

definition lits :: "string \<Rightarrow> node list" where
  "lits s = map (\<lambda>c. Atom (Lit c) Once) s"

text \<open>\<^verbatim>\<open>/^(.+):(.+)@(.+)$/\<close>\<close>

definition re_image :: "node list" where
  "re_image = [Bol, Cap Dot Plus, Atom (Lit (CHR '':'')) Once, Cap Dot Plus,
     Atom (Lit (CHR ''@'')) Once, Cap Dot Plus, Eol]"

text \<open>\<^verbatim>\<open>/\$\{?APP_DATA_DIR\}?/\<close>\<close>

definition re_app_data_dir :: "node list" where
  "re_app_data_dir = [Atom (Lit (CHR ''$'')) Once, Atom (Lit (CHR ''{'')) Opt]
     @ lits ''APP_DATA_DIR'' @ [Atom (Lit (CHR ''}'')) Opt]"

text \<open>\<^verbatim>\<open>/\$\{?APP_DATA_DIR\}?\/?:/\<close>\<close>

definition re_direct_colon :: "node list" where
  "re_direct_colon = re_app_data_dir @ [Atom (Lit (CHR ''/'')) Opt, Atom (Lit (CHR '':'')) Once]"

text \<open>\<^verbatim>\<open>/\$\{?APP_DATA_DIR\}?\/?$/\<close>\<close>

definition re_direct_end :: "node list" where
  "re_direct_end = re_app_data_dir @ [Atom (Lit (CHR ''/'')) Opt, Eol]"

text \<open>\<^verbatim>\<open>/\$\{?APP_DATA_DIR\}?\/?(.*?):/\<close>\<close>

definition re_subpath_colon :: "node list" where
  "re_subpath_colon = re_app_data_dir
     @ [Atom (Lit (CHR ''/'')) Opt, Cap Dot LazyStar, Atom (Lit (CHR '':'')) Once]"

text \<open>\<^verbatim>\<open>/\$\{?APP_DATA_DIR\}?\/?(.*?)$/\<close>\<close>

definition re_subpath_end :: "node list" where
  "re_subpath_end = re_app_data_dir @ [Atom (Lit (CHR ''/'')) Opt, Cap Dot LazyStar, Eol]"

section \<open>Diagnostics and the collaborators of the validators\<close>

text \<open>
  The id of a diagnostic (lines 15 to 23): a zod issue code, an ajv keyword, or one of six
  strings of the module.  The codes and keywords of the two libraries are fixed sets of
  strings that hold none of the six, so the three kinds are kept apart.
\<close>

datatype LintId =
    ZodIssueCode string
  | AjvKeyword string
  | invalid_yaml_syntax
  | invalid_docker_image_name
  | invalid_yaml_boolean_value
  | invalid_app_data_dir_volume_mount
  | invalid_submission_field
  | missing_file_or_directory

datatype Severity = error | warning | info

record range =
  start :: nat
  end' :: nat

record LintingResult =
  id' :: LintId
  propertiesPath :: "string option"
  line :: "range option"
  column :: "range option"
  severity :: Severity
  title :: string
  message :: string

text \<open>A segment of a key path: a property name or an array index.\<close>

datatype PropertyKey = Key string | Index nat

fun key_string :: "PropertyKey \<Rightarrow> string" where
  "key_string (Key s) = s"
| "key_string (Index n) = show_nat n"

text \<open>An issue of a zod schema and an error of the compiled ajv validator.\<close>

datatype ZodIssue = ZodIssue (issue_code: string) (issue_path: "PropertyKey list") (issue_message: string)

datatype DefinedError =
  DefinedError (error_keyword: string) (error_instancePath: string) (error_message: "string option")

text \<open>
  What \<^verbatim>\<open>lint.ts\<close> imports, as parameters.
  \<^item> \<open>YAML_parse merge text\<close> is \<^verbatim>\<open>YAML.parse(text)\<close>, or \<^verbatim>\<open>YAML.parse(text, {merge: true})\<close>
    when the flag is set: the parsed value, or \<open>Inl\<close> of the thrown error as \<^verbatim>\<open>String(e)\<close>
    renders it.
  \<^item> \<open>mockVariables\<close> is the variable mocker of \<^verbatim>\<open>./mock\<close>.
  \<^item> \<open>umbrelAppStoreYmlSchema\<close> and \<open>umbrelAppYmlSchema\<close> are \<^verbatim>\<open>safeParseAsync\<close> of the two zod
    schemas: \<open>Inl\<close> of the issues, or \<open>Inr\<close> of the parsed data.
  \<^item> \<open>validate\<close> is the ajv validator compiled from the compose schema: its verdict and
    the value of \<^verbatim>\<open>validate.errors\<close> afterwards (\<open>None\<close> for null).
  \<^item> \<open>getSourceMapForKey\<close> is the source-map resolver of \<^verbatim>\<open>../utils/yaml\<close>: the line and
    the column range it returns, each possibly absent.
  \<^item> \<open>path_normalize\<close> and \<open>path_sep\<close> are \<^verbatim>\<open>path.normalize\<close> and \<^verbatim>\<open>path.sep\<close> of
    \<^verbatim>\<open>node:path\<close>.
  \<^item> \<open>Number_toString\<close> renders a number in a template literal.
\<close>

record Env =
  YAML_parse :: "bool \<Rightarrow> string \<Rightarrow> string + jsval"
  mockVariables :: "string \<Rightarrow> string"
  umbrelAppStoreYmlSchema :: "jsval \<Rightarrow> ZodIssue list + jsval"
  umbrelAppYmlSchema :: "jsval \<Rightarrow> ZodIssue list + jsval"
  validate :: "jsval \<Rightarrow> bool \<times> DefinedError list option"
  getSourceMapForKey :: "string \<Rightarrow> PropertyKey list \<Rightarrow> range option \<times> range option"
  path_normalize :: "string \<Rightarrow> string"
  path_sep :: char
  Number_toString :: "jsnum \<Rightarrow> string"

section \<open>The app-store and app manifest validators\<close>

text \<open>The diagnostic of a YAML syntax error (lines 40 to 47, 83 to 90, 146 to 153, 273 to 280).\<close>

definition invalidYamlSyntax :: "string \<Rightarrow> string \<Rightarrow> LintingResult" where
  "invalidYamlSyntax file e =
     \<lparr>id' = invalid_yaml_syntax, propertiesPath = None, line = None, column = None,
      severity = error,
      title = file @ '' is not a valid YAML file'',
      message = e\<rparr>"

text \<open>The diagnostic of one zod issue (lines 55 to 63 and 98 to 106).\<close>

definition zodViolation :: "Env \<Rightarrow> string \<Rightarrow> ZodIssue \<Rightarrow> LintingResult" where
  "zodViolation E content issue =
     \<lparr>id' = ZodIssueCode (issue_code issue),
      propertiesPath = Some (join ''.'' (map key_string (issue_path issue))),
      line = fst (getSourceMapForKey E content (issue_path issue)),
      column = snd (getSourceMapForKey E content (issue_path issue)),
      severity = error,
      title = join ''.'' (map key_string (issue_path issue)),
      message = issue_message issue\<rparr>"

definition lintUmbrelAppStoreYml :: "Env \<Rightarrow> string \<Rightarrow> LintingResult list" where
  "lintUmbrelAppStoreYml E content =
     (case YAML_parse E False content of
        Inl e \<Rightarrow> [invalidYamlSyntax ''umbrel-app-store.yml'' e]
      | Inr umbrelAppStoreYml \<Rightarrow>
          (case umbrelAppStoreYmlSchema E umbrelAppStoreYml of
             Inl issues \<Rightarrow> map (zodViolation E content) issues
           | Inr data \<Rightarrow> []))"

record LintUmbrelAppYmlOptions =
  isNewAppSubmission :: "bool option"
  pullRequestUrl :: "string option"

text \<open>The diagnostic of a wrong submission field (lines 119 to 124).\<close>

definition invalidSubmissionField :: "Env \<Rightarrow> jsval \<Rightarrow> string \<Rightarrow> LintingResult" where
  \<open>invalidSubmissionField E submission url =
     \<lparr>id' = invalid_submission_field, propertiesPath = None, line = None, column = None,
      severity = error,
      title = ''Invalid submission field "'' @ ToString (Number_toString E) submission @ ''"'',
      message = ''The submission field must be set to the URL of this pull request: '' @ url\<rparr>\<close>

text \<open>
  The condition of line 114 to 116 reads \<^verbatim>\<open>options.isNewAppSubmission\<close> and
  \<^verbatim>\<open>options.pullRequestUrl\<close> for their truthiness: the flag is true and the URL is a
  non-empty string.
\<close>

definition lintUmbrelAppYml :: "Env \<Rightarrow> string \<Rightarrow> LintUmbrelAppYmlOptions \<Rightarrow> exn + LintingResult list" where
  "lintUmbrelAppYml E content options =
     (case YAML_parse E False content of
        Inl e \<Rightarrow> Inr [invalidYamlSyntax ''umbrel-app.yml'' e]
      | Inr rawUmbrelAppYml \<Rightarrow>
          (case umbrelAppYmlSchema E rawUmbrelAppYml of
             Inl issues \<Rightarrow> Inr (map (zodViolation E content) issues)
           | Inr umbrelAppYml \<Rightarrow>
               (case (isNewAppSubmission options, pullRequestUrl options) of
                  (Some True, Some url) \<Rightarrow>
                    if url = [] then Inr []
                    else bindE (getProp umbrelAppYml ''submission'') (\<lambda>submission.
                      if submission \<noteq> Str url
                      then Inr [invalidSubmissionField E submission url]
                      else Inr [])
                | _ \<Rightarrow> Inr [])))"

section \<open>The compose validator\<close>

text \<open>A \<^verbatim>\<open>for (const x of xs)\<close> loop over a body that updates the result array and may throw.\<close>

fun forOf :: "'a list \<Rightarrow> ('a \<Rightarrow> 's \<Rightarrow> exn + 's) \<Rightarrow> 's \<Rightarrow> exn + 's" where
  "forOf [] body s = Inr s"
| "forOf (x # xs) body s = (case body x s of Inl e \<Rightarrow> Inl e | Inr s' \<Rightarrow> forOf xs body s')"

text \<open>\<^verbatim>\<open>doc.services?.[service].name\<close>: the member of a service, as the first two loops read it.\<close>

definition serviceMember :: "jsval \<Rightarrow> string \<Rightarrow> string \<Rightarrow> exn + jsval" where
  "serviceMember doc service name =
     bindE (getProp doc ''services'') (\<lambda>services.
       if nullish services then Inr Undefined
       else bindE (getProp services service) (\<lambda>s. getProp s name))"

text \<open>\<^verbatim>\<open>doc.services?.[service]?.volumes\<close>, as the last two loops read it.\<close>

definition serviceVolumes :: "jsval \<Rightarrow> string \<Rightarrow> exn + jsval" where
  "serviceVolumes doc service =
     bindE (getProp doc ''services'') (\<lambda>services.
       if nullish services then Inr Undefined
       else bindE (getProp services service) (\<lambda>s.
         if nullish s then Inr Undefined else getProp s ''volumes''))"

text \<open>The two diagnostics of the image naming loop (lines 193 to 200 and 204 to 211).\<close>

definition invalidImageName :: "Env \<Rightarrow> string \<Rightarrow> string \<Rightarrow> string \<Rightarrow> LintingResult" where
  \<open>invalidImageName E content service img =
     \<lparr>id' = invalid_docker_image_name,
      propertiesPath = Some (''services.'' @ service @ ''.image''),
      line = fst (getSourceMapForKey E content [Key ''services'', Key service, Key ''image'']),
      column = snd (getSourceMapForKey E content [Key ''services'', Key service, Key ''image'']),
      severity = error,
      title = ''Invalid image name "'' @ img @ ''"'',
      message = ''Images should be named like "<name>:<version-tag>@<sha256>"''\<rparr>\<close>

definition invalidImageTag :: "Env \<Rightarrow> string \<Rightarrow> string \<Rightarrow> string \<Rightarrow> LintingResult" where
  \<open>invalidImageTag E content service version =
     \<lparr>id' = invalid_docker_image_name,
      propertiesPath = Some (''services.'' @ service @ ''.image''),
      line = fst (getSourceMapForKey E content [Key ''services'', Key service, Key ''image'']),
      column = snd (getSourceMapForKey E content [Key ''services'', Key service, Key ''image'']),
      severity = warning,
      title = ''Invalid image tag "'' @ version @ ''"'',
      message = ''Images should not use the "latest" tag''\<rparr>\<close>

text \<open>
  The body of the image naming loop (lines 186 to 214).  A truthy image that is not a
  string has no \<^verbatim>\<open>match\<close> method to call.
\<close>

definition imageCheck :: "Env \<Rightarrow> string \<Rightarrow> jsval \<Rightarrow> string \<Rightarrow> LintingResult list \<Rightarrow> exn + LintingResult list" where
  "imageCheck E content dockerComposeYmlMocked service result =
     bindE (serviceMember dockerComposeYmlMocked service ''image'') (\<lambda>image.
       if \<not> truthy image then Inr result
       else (case image of
          Str img \<Rightarrow>
            (case String_match img re_image of
               None \<Rightarrow> Inr (result @ [invalidImageName E content service img])
             | Some imageMatch \<Rightarrow>
                 (case nth_opt (drop 1 imageMatch) 1 of
                    Some version \<Rightarrow>
                      if version = ''latest''
                      then Inr (result @ [invalidImageTag E content service version])
                      else Inr result
                  | None \<Rightarrow> Inr result))
        | _ \<Rightarrow> Inl TypeError))"

text \<open>The diagnostic of a bare boolean (lines 244 to 256).\<close>

definition invalidBooleanValue :: "Env \<Rightarrow> string \<Rightarrow> string \<Rightarrow> string \<Rightarrow> string \<Rightarrow> jsval \<Rightarrow> LintingResult" where
  \<open>invalidBooleanValue E content service label key value =
     \<lparr>id' = invalid_yaml_boolean_value,
      propertiesPath = Some (''services.'' @ service @ ''.'' @ label @ ''.'' @ key),
      line = fst (getSourceMapForKey E content [Key ''services'', Key service, Key label, Key key]),
      column = snd (getSourceMapForKey E content [Key ''services'', Key service, Key label, Key key]),
      severity = error,
      title = ''Invalid YAML boolean value for key "'' @ key @ ''"'',
      message = ''Boolean values thould be strings like "'' @ ToString (Number_toString E) value
        @ ''" instead of '' @ ToString (Number_toString E) value\<rparr>\<close>

text \<open>The body of the bare-boolean loop (lines 219 to 260).\<close>

definition booleanEntry :: "Env \<Rightarrow> string \<Rightarrow> string \<Rightarrow> string \<Rightarrow> string \<times> jsval \<Rightarrow>
    LintingResult list \<Rightarrow> exn + LintingResult list" where
  "booleanEntry E content service label entry result =
     (case entry of (key, value) \<Rightarrow>
        if typeof value = ''boolean''
        then Inr (result @ [invalidBooleanValue E content service label key value])
        else Inr result)"

definition propertyEntries :: "string \<Rightarrow> jsval \<Rightarrow> exn + (string \<times> (string \<times> jsval) list) list" where
  "propertyEntries label v =
     (if truthy v \<and> typeof v = ''object''
      then bindE (Object_entries v) (\<lambda>entries. Inr [(label, entries)])
      else Inr [])"

definition booleanCheck :: "Env \<Rightarrow> string \<Rightarrow> jsval \<Rightarrow> string \<Rightarrow> LintingResult list \<Rightarrow> exn + LintingResult list" where
  "booleanCheck E content dockerComposeYmlMocked service result =
     bindE (serviceMember dockerComposeYmlMocked service ''environment'') (\<lambda>environment.
     bindE (serviceMember dockerComposeYmlMocked service ''labels'') (\<lambda>labels.
     bindE (serviceMember dockerComposeYmlMocked service ''extra_hosts'') (\<lambda>extra_hosts.
     bindE (propertyEntries ''environment'' environment) (\<lambda>p1.
     bindE (propertyEntries ''labels'' labels) (\<lambda>p2.
     bindE (propertyEntries ''extra_hosts'' extra_hosts) (\<lambda>p3.
       forOf (p1 @ p2 @ p3)
         (\<lambda>property. forOf (snd property) (booleanEntry E content service (fst property)))
         result))))))"

text \<open>
  The diagnostic of a direct mount (lines 290 to 297 for a string entry, 305 to 312 for
  an object entry): \<open>shown\<close> is the volume as the title shows it, \<open>hint\<close> the suggested
  replacement.
\<close>

definition invalidDirectMount :: "Env \<Rightarrow> string \<Rightarrow> string \<Rightarrow> string \<Rightarrow> string \<Rightarrow> LintingResult" where
  \<open>invalidDirectMount E content service shown hint =
     \<lparr>id' = invalid_app_data_dir_volume_mount,
      propertiesPath = Some (''services.'' @ service @ ''.volumes''),
      line = fst (getSourceMapForKey E content [Key ''services'', Key service, Key ''volumes'']),
      column = snd (getSourceMapForKey E content [Key ''services'', Key service, Key ''volumes'']),
      severity = warning,
      title = ''Volume "'' @ shown @ ''"'',
      message = ''Volumes should not be mounted directly into the "${APP_DATA_DIR}" directory! Please use a subdirectory like "''
        @ hint @ ''" instead.''\<rparr>\<close>

text \<open>The two hints: \<^verbatim>\<open>volume.split(":")[1] ?? ""\<close> and \<^verbatim>\<open>volume.target ?? "/some/dir"\<close>.\<close>

definition stringMountHint :: "string \<Rightarrow> string" where
  "stringMountHint volume =
     ''${APP_DATA_DIR}/data'' @ (case nth_opt (split (CHR '':'') volume) 1 of None \<Rightarrow> [] | Some t \<Rightarrow> t)"

definition objectMountHint :: "Env \<Rightarrow> jsval \<Rightarrow> string" where
  \<open>objectMountHint E target =
     ''source: ${APP_DATA_DIR}/data" and "target: ''
       @ ToString (Number_toString E) (coalesce target (Str ''/some/dir''))\<close>

text \<open>
  The body of the direct-mount loop, for one volume entry (lines 288 to 314).  A source
  that is not a string has no \<^verbatim>\<open>match\<close> method to call.
\<close>

definition directMountVolume :: "Env \<Rightarrow> string \<Rightarrow> string \<Rightarrow> jsval \<Rightarrow> LintingResult list \<Rightarrow> exn + LintingResult list" where
  "directMountVolume E content service volume result =
     (case volume of
        Str v \<Rightarrow>
          if String_match v re_direct_colon \<noteq> None
          then Inr (result @ [invalidDirectMount E content service v (stringMountHint v)])
          else Inr result
      | _ \<Rightarrow>
          if typeof volume = ''object''
          then bindE (js_in ''source'' volume) (\<lambda>hasSource.
            if \<not> hasSource then Inr result
            else bindE (js_in ''target'' volume) (\<lambda>hasTarget.
              if \<not> hasTarget then Inr result
              else bindE (getProp volume ''source'') (\<lambda>source.
                bindE (getProp volume ''target'') (\<lambda>target.
                  (case source of
                     Str src \<Rightarrow>
                       if String_match src re_direct_end \<noteq> None
                       then Inr (result @ [invalidDirectMount E content service
                         (src @ '':'' @ ToString (Number_toString E) target) (objectMountHint E target)])
                       else Inr result
                   | _ \<Rightarrow> Inl TypeError)))))
          else Inr result)"

text \<open>The direct-mount loop over the volumes of one service (lines 284 to 316).\<close>

definition directMountCheck :: "Env \<Rightarrow> string \<Rightarrow> jsval \<Rightarrow> string \<Rightarrow> LintingResult list \<Rightarrow> exn + LintingResult list" where
  "directMountCheck E content dockerComposeYml service result =
     bindE (serviceVolumes dockerComposeYml service) (\<lambda>volumes.
       if truthy volumes \<and> isArray volumes
       then forOf (elements volumes) (directMountVolume E content service) result
       else Inr result)"

text \<open>
  The diagnostic of a missing file or directory (lines 332 to 343 and 359 to 370):
  \<open>shown\<close> is the volume as the message shows it.
\<close>

definition missingFileOrDirectory :: "Env \<Rightarrow> string \<Rightarrow> string \<Rightarrow> string \<Rightarrow> string \<Rightarrow> string \<Rightarrow> LintingResult" where
  \<open>missingFileOrDirectory E content appId service match shown =
     \<lparr>id' = missing_file_or_directory,
      propertiesPath = Some (''services.'' @ service @ ''.volumes''),
      line = fst (getSourceMapForKey E content [Key ''services'', Key service, Key ''volumes'']),
      column = snd (getSourceMapForKey E content [Key ''services'', Key service, Key ''volumes'']),
      severity = error,
      title = ''Missing file/directory "'' @ appId @ ''/'' @ match @ ''"'',
      message = ''The volume "'' @ shown @ ''" tries to mount the file/directory "''
        @ appId @ ''/'' @ match
        @ ''", but it is not present! Please create that file/directory!''\<rparr>\<close>

text \<open>\<^verbatim>\<open>s.match(re)?.[1]\<close>: the first capture, undefined when there is no match.\<close>

definition firstCapture :: "string \<Rightarrow> node list \<Rightarrow> string option" where
  "firstCapture s re = (case String_match s re of None \<Rightarrow> None | Some m \<Rightarrow> nth_opt m 1)"

text \<open>The body of the bind-mount existence loop, for one volume entry (lines 325 to 373).\<close>

definition missingFileVolume :: "Env \<Rightarrow> string \<Rightarrow> string list \<Rightarrow> string \<Rightarrow> string \<Rightarrow> jsval \<Rightarrow>
    LintingResult list \<Rightarrow> exn + LintingResult list" where
  "missingFileVolume E content files appId service volume result =
     (case volume of
        Str v \<Rightarrow>
          if String_match v re_app_data_dir \<noteq> None
          then (case firstCapture v re_subpath_colon of
                  None \<Rightarrow> Inr result
                | Some match \<Rightarrow>
                    if match = [] then Inr result
                    else if appId @ ''/'' @ match \<notin> set files
                    then Inr (result @ [missingFileOrDirectory E content appId service match v])
                    else Inr result)
          else Inr result
      | _ \<Rightarrow>
          if typeof volume = ''object''
          then bindE (js_in ''source'' volume) (\<lambda>hasSource.
            if \<not> hasSource then Inr result
            else bindE (js_in ''target'' volume) (\<lambda>hasTarget.
              if \<not> hasTarget then Inr result
              else bindE (getProp volume ''source'') (\<lambda>source.
                bindE (getProp volume ''target'') (\<lambda>target.
                  (case source of
                     Str src \<Rightarrow>
                       if String_match src re_app_data_dir \<noteq> None
                       then (case firstCapture src re_subpath_end of
                               None \<Rightarrow> Inr result
                             | Some match \<Rightarrow>
                                 if match = [] then Inr result
                                 else if appId @ ''/'' @ match \<notin> set files
                                 then Inr (result @ [missingFileOrDirectory E content appId service match
                                   (src @ '':'' @ ToString (Number_toString E) target)])
                                 else Inr result)
                       else Inr result
                   | _ \<Rightarrow> Inl TypeError)))))
          else Inr result)"

text \<open>The bind-mount existence loop over the volumes of one service (lines 321 to 375).\<close>

definition missingFileCheck :: "Env \<Rightarrow> string \<Rightarrow> string list \<Rightarrow> string \<Rightarrow> jsval \<Rightarrow> string \<Rightarrow>
    LintingResult list \<Rightarrow> exn + LintingResult list" where
  "missingFileCheck E content files appId dockerComposeYml service result =
     bindE (serviceVolumes dockerComposeYml service) (\<lambda>volumes.
       if truthy volumes \<and> isArray volumes
       then forOf (elements volumes) (missingFileVolume E content files appId service) result
       else Inr result)"

text \<open>
  The diagnostic of one schema violation (lines 163 to 178): the instance path is
  normalised, split at the path separator, its empty segments dropped.
\<close>

definition instanceKeys :: "Env \<Rightarrow> string \<Rightarrow> string list" where
  "instanceKeys E instancePath = filter (\<lambda>s. s \<noteq> []) (split (path_sep E) (path_normalize E instancePath))"

definition schemaViolation :: "Env \<Rightarrow> string \<Rightarrow> DefinedError \<Rightarrow> LintingResult" where
  "schemaViolation E content err =
     \<lparr>id' = AjvKeyword (error_keyword err),
      propertiesPath = Some (join ''.'' (instanceKeys E (error_instancePath err))),
      line = fst (getSourceMapForKey E content (map Key (instanceKeys E (error_instancePath err)))),
      column = snd (getSourceMapForKey E content (map Key (instanceKeys E (error_instancePath err)))),
      severity = error,
      title = error_instancePath err,
      message = (case error_message err of None \<Rightarrow> ''Unknown error'' | Some m \<Rightarrow> m)\<rparr>"

text \<open>The four semantic loops, once the mocked document is schema-valid (lines 182 to 378).\<close>

definition semanticChecks :: "Env \<Rightarrow> string \<Rightarrow> string list \<Rightarrow> string \<Rightarrow> jsval \<Rightarrow> exn + LintingResult list" where
  "semanticChecks E content files appId dockerComposeYmlMocked =
     bindE (getProp dockerComposeYmlMocked ''services'') (\<lambda>servicesValue.
     bindE (Object_keys (coalesce servicesValue (Obj []))) (\<lambda>servicesMocked.
     bindE (forOf servicesMocked (imageCheck E content dockerComposeYmlMocked) []) (\<lambda>result.
     bindE (forOf servicesMocked (booleanCheck E content dockerComposeYmlMocked) result) (\<lambda>result.
       (case YAML_parse E True content of
          Inl e \<Rightarrow> Inr [invalidYamlSyntax ''docker-compose.yml'' e]
        | Inr dockerComposeYml \<Rightarrow>
            bindE (getProp dockerComposeYml ''services'') (\<lambda>servicesValue.
            bindE (Object_keys (coalesce servicesValue (Obj []))) (\<lambda>services.
            bindE (forOf services (directMountCheck E content dockerComposeYml) result) (\<lambda>result.
              forOf services (missingFileCheck E content files appId dockerComposeYml) result))))))))"

definition lintDockerComposeYml :: "Env \<Rightarrow> string \<Rightarrow> string list \<Rightarrow> string \<Rightarrow> exn + LintingResult list" where
  "lintDockerComposeYml E content files appId =
     (case YAML_parse E True (mockVariables E content) of
        Inl e \<Rightarrow> Inr [invalidYamlSyntax ''docker-compose.yml'' e]
      | Inr dockerComposeYmlMocked \<Rightarrow>
          (case validate E dockerComposeYmlMocked of
             (validAppYaml, errors) \<Rightarrow>
               if \<not> validAppYaml
               then Inr (map (schemaViolation E content) (case errors of None \<Rightarrow> [] | Some es \<Rightarrow> es))
               else semanticChecks E content files appId dockerComposeYmlMocked))"


section \<open>Notions used to state the properties\<close>

text \<open>The service names the loops iterate over: \<^verbatim>\<open>Object.keys(doc.services ?? {})\<close>.\<close>

definition serviceNames :: "jsval \<Rightarrow> string list" where
  "serviceNames doc =
     (case getProp doc ''services'' of
        Inl e \<Rightarrow> []
      | Inr services \<Rightarrow> map fst (ownEntries (coalesce services (Obj []))))"

text \<open>
  The version tag the image loop reads off a match: the second element of
  \<^verbatim>\<open>imageMatch.slice(1)\<close>.
\<close>

definition imageVersion :: "string \<Rightarrow> string option" where
  "imageVersion img =
     (case String_match img re_image of
        None \<Rightarrow> None
      | Some imageMatch \<Rightarrow> nth_opt (drop 1 imageMatch) 1)"

text \<open>
  The pattern \<^verbatim>\<open><name>:<tag>@<digest>\<close> in the spec's words: three non-empty components,
  separated by a colon and an at sign, on one line.
\<close>

definition image_parts :: "string \<Rightarrow> string \<Rightarrow> string \<Rightarrow> string \<Rightarrow> bool" where
  "image_parts img name tag digest =
     (img = name @ '':'' @ tag @ ''@'' @ digest \<and> name \<noteq> [] \<and> tag \<noteq> [] \<and> digest \<noteq> [] \<and>
      (\<forall>c\<in>set img. \<not> LineTerminator c))"

text \<open>The app-data-root placeholder in the spec's words: plain or braced.\<close>

definition placeholder :: "string \<Rightarrow> bool" where
  "placeholder ph = (ph = ''$APP_DATA_DIR'' \<or> ph = ''${APP_DATA_DIR}'')"

text \<open>
  The texts the placeholder pattern accepts: each brace is optional on its own.  A string
  entry is a direct-mount text when one of them occurs in it directly followed by a
  colon, or by a slash and a colon; a source is a direct-mount source when it ends with
  one of them, or with one of them and a slash.
\<close>

definition placeholderForms :: "string list" where
  "placeholderForms = [''$APP_DATA_DIR'', ''${APP_DATA_DIR'', ''$APP_DATA_DIR}'', ''${APP_DATA_DIR}'']"

fun occurs :: "string \<Rightarrow> string \<Rightarrow> bool" where
  "occurs p [] = (p = [])"
| "occurs p (x # xs) = (take (length p) (x # xs) = p \<or> occurs p xs)"

definition endsWith :: "string \<Rightarrow> string \<Rightarrow> bool" where
  "endsWith p s = (length p \<le> length s \<and> drop (length s - length p) s = p)"

definition directMountText :: "string \<Rightarrow> bool" where
  "directMountText v = (\<exists>p\<in>set placeholderForms. occurs (p @ '':'') v \<or> occurs (p @ ''/:'') v)"

definition directMountSource :: "string \<Rightarrow> bool" where
  "directMountSource src = (\<exists>p\<in>set placeholderForms. endsWith p src \<or> endsWith (p @ ''/'') src)"

text \<open>
  The entries of a property in mapping form whose value is a native boolean, and the
  diagnostics the spec asks for them, for the three properties of one service.
\<close>

definition bareBooleanEntries :: "jsval \<Rightarrow> (string \<times> jsval) list" where
  "bareBooleanEntries v =
     (if truthy v \<and> typeof v = ''object''
      then filter (\<lambda>entry. typeof (snd entry) = ''boolean'') (ownEntries v)
      else [])"

definition booleanDiagnostics :: "Env \<Rightarrow> string \<Rightarrow> jsval \<Rightarrow> string \<Rightarrow> LintingResult list" where
  "booleanDiagnostics E content doc service =
     concat (map (\<lambda>label.
         case serviceMember doc service label of
           Inl e \<Rightarrow> []
         | Inr v \<Rightarrow> map (\<lambda>entry. invalidBooleanValue E content service label (fst entry) (snd entry))
             (bareBooleanEntries v))
       [''environment'', ''labels'', ''extra_hosts''])"

text \<open>Auxiliary notions of the proofs.\<close>

definition noLT :: "string \<Rightarrow> bool" where
  "noLT s = (\<forall>c\<in>set s. \<not> LineTerminator c)"

definition tag_digest :: "string \<Rightarrow> string \<Rightarrow> string \<Rightarrow> bool" where
  "tag_digest s t d = (s = t @ CHR ''@'' # d \<and> t \<noteq> [] \<and> noLT t \<and> d \<noteq> [] \<and> noLT d)"

definition name_rest :: "string \<Rightarrow> string \<Rightarrow> string \<Rightarrow> string \<Rightarrow> bool" where
  "name_rest s n t d = (\<exists>r. s = n @ CHR '':'' # r \<and> n \<noteq> [] \<and> noLT n \<and> tag_digest r t d)"

text \<open>A loop body that only pushes: its result is the old array followed by what it pushes.\<close>

definition pushes :: "('s list \<Rightarrow> exn + 's list) \<Rightarrow> bool" where
  "pushes body = (\<forall>s. body s = bindE (body []) (\<lambda>ds. Inr (s @ ds)))"

section \<open>A concrete environment\<close>

text \<open>
  An environment with a handful of documents, on which the theorems below are instantiated.
  The texts are one-line YAML.
\<close>

definition demo_compose :: string where
  \<open>demo_compose = ''services: {web: {image: "nginx:1.25@sha256:abc", environment: {DEBUG: true, MODE: "true"}, volumes: ["${APP_DATA_DIR}:/data", "${APP_DATA_DIR}/sub:/data", {source: "${APP_DATA_DIR}/", target: /x}]}, db: {image: "registry:5000/img:latest@sha256:abc"}, cache: {image: redis}}''\<close>

definition demo_compose_mocked :: string where
  \<open>demo_compose_mocked = ''services: {web: {image: "nginx:1.25@sha256:abc", environment: {DEBUG: true, MODE: "true"}, volumes: ["/data-dir:/data", "/data-dir/sub:/data", {source: "/data-dir/", target: /x}]}, db: {image: "registry:5000/img:latest@sha256:abc"}, cache: {image: redis}}''\<close>

definition demo_services :: "string \<Rightarrow> jsval" where
  "demo_services dataDir =
     Obj [(''services'', Obj [
       (''web'', Obj [
          (''image'', Str ''nginx:1.25@sha256:abc''),
          (''environment'', Obj [(''DEBUG'', Bool True), (''MODE'', Str ''true'')]),
          (''volumes'', Arr [Str (dataDir @ '':/data''), Str (dataDir @ ''/sub:/data''),
             Obj [(''source'', Str (dataDir @ ''/'')), (''target'', Str ''/x'')]])]),
       (''db'', Obj [(''image'', Str ''registry:5000/img:latest@sha256:abc'')]),
       (''cache'', Obj [(''image'', Str ''redis'')])])]"

text \<open>A flow sequence holding an unquoted brace is a YAML syntax error; the mocked text is not.\<close>

definition demo_unparsable :: string where
  "demo_unparsable = ''services: [${APP_DATA_DIR}]''"

definition demo_unparsable_mocked :: string where
  "demo_unparsable_mocked = ''services: [/data-dir]''"

text \<open>The same, in a document that is schema-valid once mocked.\<close>

definition demo_reparse :: string where
  \<open>demo_reparse = ''services: {web: {image: "nginx:1.25@sha256:abc", command: [${APP_DATA_DIR}]}}''\<close>

definition demo_reparse_mocked :: string where
  \<open>demo_reparse_mocked = ''services: {web: {image: "nginx:1.25@sha256:abc", command: [/data-dir]}}''\<close>

definition demo_good :: string where
  \<open>demo_good = ''services: {web: {image: "nginx:1.25@sha256:abc", environment: {MODE: "true"}, volumes: ["${APP_DATA_DIR}/sub:/data"]}}''\<close>

definition demo_good_doc :: jsval where
  "demo_good_doc = Obj [(''services'', Obj [(''web'', Obj [(''image'', Str ''nginx:1.25@sha256:abc''),
     (''environment'', Obj [(''MODE'', Str ''true'')]),
     (''volumes'', Arr [Str ''${APP_DATA_DIR}/sub:/data''])])])]"

definition demo_schema_invalid :: string where
  "demo_schema_invalid = ''services: {web: {image: nginx, restart: 5}}''"

definition demo_empty_image :: string where
  \<open>demo_empty_image = ''services: {web: {image: ""}}''\<close>

text \<open>
  Two documents with one volume entry each: a source whose subpath ends in the
  placeholder, and an object entry without a target.
\<close>

definition demo_volume_doc :: "jsval \<Rightarrow> jsval" where
  "demo_volume_doc volume =
     Obj [(''services'', Obj [(''web'', Obj [(''image'', Str ''nginx:1.25@sha256:abc''),
       (''volumes'', Arr [volume])])])]"

definition demo_nested :: string where
  \<open>demo_nested = ''services: {web: {image: "nginx:1.25@sha256:abc", volumes: ["${APP_DATA_DIR}/sub/$APP_DATA_DIR:/data"]}}''\<close>

definition demo_nested_mocked :: string where
  \<open>demo_nested_mocked = ''services: {web: {image: "nginx:1.25@sha256:abc", volumes: ["/data-dir/sub//data-dir:/data"]}}''\<close>

definition demo_no_target :: string where
  \<open>demo_no_target = ''services: {web: {image: "nginx:1.25@sha256:abc", volumes: [{type: bind, source: "${APP_DATA_DIR}/sub"}]}}''\<close>

definition demo_no_target_mocked :: string where
  \<open>demo_no_target_mocked = ''services: {web: {image: "nginx:1.25@sha256:abc", volumes: [{type: bind, source: "/data-dir/sub"}]}}''\<close>

definition demo_manifest :: string where
  \<open>demo_manifest = ''{name: Demo, port: 3000, submission: "https://github.com/getumbrel/umbrel-apps/pull/1"}''\<close>

definition demo_manifest_data :: jsval where
  "demo_manifest_data = Obj [(''name'', Str ''Demo''), (''port'', Num (Finite 3000)),
     (''submission'', Str ''https://github.com/getumbrel/umbrel-apps/pull/1'')]"

definition demo_parse :: "bool \<Rightarrow> string \<Rightarrow> string + jsval" where
  "demo_parse merge text =
     (if text = demo_compose then Inr (demo_services ''${APP_DATA_DIR}'')
      else if text = demo_compose_mocked then Inr (demo_services ''/data-dir'')
      else if text = demo_unparsable_mocked then Inr (Obj [(''services'', Arr [Str ''/data-dir''])])
      else if text = demo_schema_invalid
        then Inr (Obj [(''services'', Obj [(''web'', Obj [(''image'', Str ''nginx''), (''restart'', Num (Finite 5))])])])
      else if text = demo_empty_image
        then Inr (Obj [(''services'', Obj [(''web'', Obj [(''image'', Str [])])])])
      else if text = demo_reparse_mocked
        then Inr (Obj [(''services'', Obj [(''web'', Obj [(''image'', Str ''nginx:1.25@sha256:abc''),
          (''command'', Arr [Str ''/data-dir''])])])])
      else if text = demo_good then Inr demo_good_doc
      else if text = demo_manifest then Inr demo_manifest_data
      else if text = demo_nested
        then Inr (demo_volume_doc (Str ''${APP_DATA_DIR}/sub/$APP_DATA_DIR:/data''))
      else if text = demo_nested_mocked
        then Inr (demo_volume_doc (Str ''/data-dir/sub//data-dir:/data''))
      else if text = demo_no_target
        then Inr (demo_volume_doc (Obj [(''type'', Str ''bind''), (''source'', Str ''${APP_DATA_DIR}/sub'')]))
      else if text = demo_no_target_mocked
        then Inr (demo_volume_doc (Obj [(''type'', Str ''bind''), (''source'', Str ''/data-dir/sub'')]))
      else Inl ''YAMLParseError'')"

definition demo_mock :: "string \<Rightarrow> string" where
  "demo_mock text =
     (if text = demo_compose then demo_compose_mocked
      else if text = demo_unparsable then demo_unparsable_mocked
      else if text = demo_reparse then demo_reparse_mocked
      else if text = demo_nested then demo_nested_mocked
      else if text = demo_no_target then demo_no_target_mocked
      else text)"

definition demo_validate :: "jsval \<Rightarrow> bool \<times> DefinedError list option" where
  "demo_validate doc =
     (if doc = Obj [(''services'', Arr [Str ''/data-dir''])]
        then (False, Some [DefinedError ''type'' ''/services'' (Some ''must be object'')])
      else if doc = Obj [(''services'', Obj [(''web'', Obj [(''image'', Str ''nginx''), (''restart'', Num (Finite 5))])])]
        then (False, Some [DefinedError ''type'' ''/services/web/restart'' (Some ''must be string'')])
      else (True, None))"

definition demo_schema :: "jsval \<Rightarrow> ZodIssue list + jsval" where
  "demo_schema v =
     (if v = demo_manifest_data then Inr v
      else Inl [ZodIssue ''invalid_type'' [Key ''name''] ''Required''])"

definition demoEnv :: Env where
  "demoEnv = \<lparr>YAML_parse = demo_parse, mockVariables = demo_mock,
     umbrelAppStoreYmlSchema = demo_schema, umbrelAppYmlSchema = demo_schema,
     validate = demo_validate,
     getSourceMapForKey = (\<lambda>content keys. (None, None)),
     path_normalize = (\<lambda>p. p), path_sep = CHR ''/'',
     Number_toString = (\<lambda>n. ''NaN'')\<rparr>"

section \<open>Loops that only push\<close>

lemma bindE_Inl [simp]: "bindE (Inl e) f = Inl e"
  by (simp add: bindE_def)

lemma bindE_Inr [simp]: "bindE (Inr x) f = f x"
  by (simp add: bindE_def)

lemma bindE_eq_Inr: "bindE m f = Inr r \<longleftrightarrow> (\<exists>x. m = Inr x \<and> f x = Inr r)"
  by (cases m) simp_all

lemma pushesI: "(\<And>s. body s = bindE (body []) (\<lambda>ds. Inr (s @ ds))) \<Longrightarrow> pushes body"
  unfolding pushes_def by blast

lemma pushesD: "pushes body \<Longrightarrow> body s = bindE (body []) (\<lambda>ds. Inr (s @ ds))"
  unfolding pushes_def by blast

lemma pushes_Inr: "pushes body \<Longrightarrow> body [] = Inr ds \<Longrightarrow> body s = Inr (s @ ds)"
  using pushesD [of body s] by simp

lemma pushes_Inl: "pushes body \<Longrightarrow> body [] = Inl e \<Longrightarrow> body s = Inl e"
  using pushesD [of body s] by simp

lemma forOf_pushes:
  assumes "\<And>x. pushes (body x)"
  shows "pushes (forOf xs body)"
proof (induction xs)
  case Nil
  show ?case by (simp add: pushes_def)
next
  case (Cons x xs)
  show ?case
  proof (rule pushesI)
    fix s
    show "forOf (x # xs) body s = bindE (forOf (x # xs) body []) (\<lambda>ds. Inr (s @ ds))"
    proof (cases "body x []")
      case (Inl e)
      then have "body x s = Inl e" by (rule pushes_Inl [OF assms])
      then show ?thesis using Inl by simp
    next
      case (Inr ds)
      then have "body x s = Inr (s @ ds)" by (rule pushes_Inr [OF assms])
      moreover have "forOf xs body (s @ ds) = bindE (forOf xs body []) (\<lambda>es. Inr ((s @ ds) @ es))"
        using pushesD [OF Cons.IH] by blast
      moreover have "forOf xs body ds = bindE (forOf xs body []) (\<lambda>es. Inr (ds @ es))"
        using pushesD [OF Cons.IH] by blast
      ultimately show ?thesis using Inr by (cases "forOf xs body []") simp_all
    qed
  qed
qed

text \<open>What a loop over pushing bodies returns: the pushes of each element, in order.\<close>

lemma forOf_Inr_concat:
  assumes "\<And>x. pushes (body x)"
  shows "forOf xs body s = Inr r \<longleftrightarrow>
    (\<exists>dss. list_all2 (\<lambda>x ds. body x [] = Inr ds) xs dss \<and> r = s @ concat dss)"
proof (induction xs arbitrary: s r)
  case Nil
  show ?case by auto
next
  case (Cons x xs)
  show ?case
  proof (cases "body x []")
    case (Inl e)
    then have "body x s = Inl e" by (rule pushes_Inl [OF assms])
    then show ?thesis using Inl by (auto simp: list_all2_Cons1)
  next
    case (Inr ds)
    then have "body x s = Inr (s @ ds)" by (rule pushes_Inr [OF assms])
    then show ?thesis using Inr Cons.IH [of "s @ ds" r]
      by (auto simp: list_all2_Cons1)
  qed
qed

lemma forOf_member:
  assumes "\<And>x. pushes (body x)" and "forOf xs body [] = Inr r"
  shows "d \<in> set r \<longleftrightarrow> (\<exists>x\<in>set xs. \<exists>ds. body x [] = Inr ds \<and> d \<in> set ds)"
proof -
  from assms obtain dss where dss: "list_all2 (\<lambda>x ds. body x [] = Inr ds) xs dss" "r = concat dss"
    using forOf_Inr_concat [OF assms(1), where xs = xs and s = "[]" and r = r] by auto
  show ?thesis
  proof
    assume "d \<in> set r"
    then obtain ds where ds: "ds \<in> set dss" "d \<in> set ds" using dss(2) by auto
    then obtain i where i: "i < length dss" "dss ! i = ds" by (auto simp: in_set_conv_nth)
    then have "body (xs ! i) [] = Inr ds" "xs ! i \<in> set xs"
      using dss(1) by (auto simp: list_all2_conv_all_nth)
    then show "\<exists>x\<in>set xs. \<exists>ds. body x [] = Inr ds \<and> d \<in> set ds" using ds by blast
  next
    assume "\<exists>x\<in>set xs. \<exists>ds. body x [] = Inr ds \<and> d \<in> set ds"
    then obtain x ds where x: "x \<in> set xs" "body x [] = Inr ds" "d \<in> set ds" by blast
    then obtain i where i: "i < length xs" "xs ! i = x" by (auto simp: in_set_conv_nth)
    then have "body x [] = Inr (dss ! i)" "dss ! i \<in> set dss"
      using dss(1) by (auto simp: list_all2_conv_all_nth)
    then have "ds \<in> set dss" using x by simp
    then show "d \<in> set r" using x dss(2) by auto
  qed
qed

lemma forOf_each:
  assumes "\<And>x. pushes (body x)" and "forOf xs body [] = Inr r" and "x \<in> set xs"
  shows "\<exists>ds. body x [] = Inr ds"
proof -
  from assms obtain dss where dss: "list_all2 (\<lambda>x ds. body x [] = Inr ds) xs dss"
    using forOf_Inr_concat [OF assms(1), where xs = xs and s = "[]" and r = r] by auto
  from assms(3) obtain i where i: "i < length xs" "xs ! i = x" by (auto simp: in_set_conv_nth)
  then have "body x [] = Inr (dss ! i)" using dss by (auto simp: list_all2_conv_all_nth)
  then show ?thesis by blast
qed

section \<open>The quantifiers of the matcher\<close>

lemma greedy_None:
  "greedy c k acc s = None \<longleftrightarrow>
     (\<forall>u v. s = u @ v \<and> (\<forall>x\<in>set u. accepts c x) \<longrightarrow> k (acc @ u) v = None)"
proof (induction s arbitrary: acc)
  case Nil
  show ?case by simp
next
  case (Cons x xs)
  show ?case
  proof (cases "accepts c x")
    case False
    have "greedy c k acc (x # xs) = None \<longleftrightarrow> k acc (x # xs) = None"
      using False by simp
    also have "\<dots> \<longleftrightarrow> (\<forall>u v. x # xs = u @ v \<and> (\<forall>y\<in>set u. accepts c y) \<longrightarrow> k (acc @ u) v = None)"
    proof
      assume h: "k acc (x # xs) = None"
      show "\<forall>u v. x # xs = u @ v \<and> (\<forall>y\<in>set u. accepts c y) \<longrightarrow> k (acc @ u) v = None"
      proof (intro allI impI)
        fix u v assume uv: "x # xs = u @ v \<and> (\<forall>y\<in>set u. accepts c y)"
        then have "u = []" using False by (cases u) auto
        then show "k (acc @ u) v = None" using uv h by simp
      qed
    next
      assume h: "\<forall>u v. x # xs = u @ v \<and> (\<forall>y\<in>set u. accepts c y) \<longrightarrow> k (acc @ u) v = None"
      show "k acc (x # xs) = None" using h [rule_format, of "[]" "x # xs"] by simp
    qed
    finally show ?thesis .
  next
    case True
    have "greedy c k acc (x # xs) = None \<longleftrightarrow> greedy c k (acc @ [x]) xs = None \<and> k acc (x # xs) = None"
      using True by (simp split: option.splits)
    also have "\<dots> \<longleftrightarrow> (\<forall>u v. xs = u @ v \<and> (\<forall>y\<in>set u. accepts c y) \<longrightarrow> k (acc @ x # u) v = None) \<and> k acc (x # xs) = None"
      using Cons.IH [of "acc @ [x]"] by simp
    also have "\<dots> \<longleftrightarrow> (\<forall>u v. x # xs = u @ v \<and> (\<forall>y\<in>set u. accepts c y) \<longrightarrow> k (acc @ u) v = None)"
    proof
      assume h: "(\<forall>u v. xs = u @ v \<and> (\<forall>y\<in>set u. accepts c y) \<longrightarrow> k (acc @ x # u) v = None) \<and> k acc (x # xs) = None"
      show "\<forall>u v. x # xs = u @ v \<and> (\<forall>y\<in>set u. accepts c y) \<longrightarrow> k (acc @ u) v = None"
      proof (intro allI impI)
        fix u v assume uv: "x # xs = u @ v \<and> (\<forall>y\<in>set u. accepts c y)"
        show "k (acc @ u) v = None"
        proof (cases u)
          case Nil
          then show ?thesis using uv h by simp
        next
          case (Cons a w)
          then have "a = x" "xs = w @ v" "\<forall>y\<in>set w. accepts c y" using uv by auto
          then show ?thesis using h Cons by simp
        qed
      qed
    next
      assume h: "\<forall>u v. x # xs = u @ v \<and> (\<forall>y\<in>set u. accepts c y) \<longrightarrow> k (acc @ u) v = None"
      have "k acc (x # xs) = None" using h [rule_format, of "[]" "x # xs"] by simp
      moreover have "\<forall>u v. xs = u @ v \<and> (\<forall>y\<in>set u. accepts c y) \<longrightarrow> k (acc @ x # u) v = None"
      proof (intro allI impI)
        fix u v assume uv: "xs = u @ v \<and> (\<forall>y\<in>set u. accepts c y)"
        show "k (acc @ x # u) v = None" using h [rule_format, of "x # u" v] uv True by simp
      qed
      ultimately show "(\<forall>u v. xs = u @ v \<and> (\<forall>y\<in>set u. accepts c y) \<longrightarrow> k (acc @ x # u) v = None) \<and> k acc (x # xs) = None"
        by blast
    qed
    finally show ?thesis .
  qed
qed

lemma greedy_Some:
  "greedy c k acc s = Some r \<Longrightarrow>
     \<exists>u v. s = u @ v \<and> (\<forall>x\<in>set u. accepts c x) \<and> k (acc @ u) v = Some r \<and>
       (\<forall>u' v'. s = u' @ v' \<and> (\<forall>x\<in>set u'. accepts c x) \<and> length u < length u' \<longrightarrow> k (acc @ u') v' = None)"
proof (induction s arbitrary: acc)
  case Nil
  then show ?case by simp
next
  case (Cons x xs)
  show ?case
  proof (cases "accepts c x \<and> greedy c k (acc @ [x]) xs \<noteq> None")
    case True
    then have "greedy c k (acc @ [x]) xs = Some r" using Cons.prems by (auto split: option.splits)
    from Cons.IH [OF this] obtain u v where uv: "xs = u @ v" "\<forall>y\<in>set u. accepts c y"
      "k ((acc @ [x]) @ u) v = Some r"
      "\<forall>u' v'. xs = u' @ v' \<and> (\<forall>y\<in>set u'. accepts c y) \<and> length u < length u' \<longrightarrow> k ((acc @ [x]) @ u') v' = None"
      by blast
    have "x # xs = (x # u) @ v" using uv by simp
    moreover have "\<forall>y\<in>set (x # u). accepts c y" using uv True by simp
    moreover have "k (acc @ x # u) v = Some r" using uv by simp
    moreover have "\<forall>u' v'. x # xs = u' @ v' \<and> (\<forall>y\<in>set u'. accepts c y) \<and> length (x # u) < length u' \<longrightarrow> k (acc @ u') v' = None"
    proof (intro allI impI)
      fix u' v' assume h: "x # xs = u' @ v' \<and> (\<forall>y\<in>set u'. accepts c y) \<and> length (x # u) < length u'"
      then obtain w where w: "u' = x # w" "xs = w @ v'" by (cases u') auto
      then have "k ((acc @ [x]) @ w) v' = None" using uv(4) h by auto
      then show "k (acc @ u') v' = None" using w by simp
    qed
    ultimately show ?thesis by blast
  next
    case False
    then have kr: "k acc (x # xs) = Some r" using Cons.prems by (auto split: option.splits if_splits)
    have "\<forall>u' v'. x # xs = u' @ v' \<and> (\<forall>y\<in>set u'. accepts c y) \<and> length ([]::string) < length u' \<longrightarrow> k (acc @ u') v' = None"
    proof (intro allI impI)
      fix u' v' assume h: "x # xs = u' @ v' \<and> (\<forall>y\<in>set u'. accepts c y) \<and> length ([]::string) < length u'"
      then obtain w where w: "u' = x # w" "xs = w @ v'" by (cases u') auto
      then have ax: "accepts c x" using h by simp
      then have "greedy c k (acc @ [x]) xs = None" using False by simp
      then have "k ((acc @ [x]) @ w) v' = None" using w h by (simp add: greedy_None)
      then show "k (acc @ u') v' = None" using w by simp
    qed
    then show ?thesis using kr by (intro exI [of _ "[]"] exI [of _ "x # xs"]) simp
  qed
qed

lemma lazy_skip:
  assumes "\<And>a. a \<in> set u \<Longrightarrow> accepts c a"
    and "\<And>a m r. a \<in> set u \<Longrightarrow> k m (a # r) = None"
  shows "lazy c k acc (u @ v) = lazy c k (acc @ u) v"
  using assms
proof (induction u arbitrary: acc)
  case Nil
  show ?case by simp
next
  case (Cons a u)
  have "lazy c k acc ((a # u) @ v) = lazy c k (acc @ [a]) (u @ v)"
    using Cons.prems by simp
  also have "\<dots> = lazy c k ((acc @ [a]) @ u) v"
    using Cons.prems by (intro Cons.IH) auto
  finally show ?case by simp
qed

lemma exec_from_no_first:
  "a \<notin> set s \<Longrightarrow> exec_from (Atom (Lit a) Once # ns) st s = None"
  by (induction s arbitrary: st) auto

lemma plus_None:
  "quantified c Plus k s = None \<longleftrightarrow>
     (\<forall>u v. s = u @ v \<and> u \<noteq> [] \<and> (\<forall>x\<in>set u. accepts c x) \<longrightarrow> k u v = None)"
proof (cases s)
  case Nil
  then show ?thesis by simp
next
  case (Cons x xs)
  show ?thesis
  proof (cases "accepts c x")
    case False
    have "\<And>u v. x # xs = u @ v \<Longrightarrow> u \<noteq> [] \<Longrightarrow> \<forall>y\<in>set u. accepts c y \<Longrightarrow> False"
    proof -
      fix u v assume "x # xs = u @ v" "u \<noteq> []" "\<forall>y\<in>set u. accepts c y"
      then show False using False by (cases u) auto
    qed
    then show ?thesis using Cons False by auto
  next
    case True
    have "quantified c Plus k s = None \<longleftrightarrow>
        (\<forall>u v. xs = u @ v \<and> (\<forall>y\<in>set u. accepts c y) \<longrightarrow> k ([x] @ u) v = None)"
      using Cons True by (simp add: greedy_None)
    also have "\<dots> \<longleftrightarrow> (\<forall>u v. s = u @ v \<and> u \<noteq> [] \<and> (\<forall>y\<in>set u. accepts c y) \<longrightarrow> k u v = None)"
    proof
      assume h: "\<forall>u v. xs = u @ v \<and> (\<forall>y\<in>set u. accepts c y) \<longrightarrow> k ([x] @ u) v = None"
      show "\<forall>u v. s = u @ v \<and> u \<noteq> [] \<and> (\<forall>y\<in>set u. accepts c y) \<longrightarrow> k u v = None"
      proof (intro allI impI)
        fix u v assume uv: "s = u @ v \<and> u \<noteq> [] \<and> (\<forall>y\<in>set u. accepts c y)"
        then obtain w where w: "u = x # w" "xs = w @ v" using Cons by (cases u) auto
        then show "k u v = None" using h [rule_format, of w v] uv by simp
      qed
    next
      assume h: "\<forall>u v. s = u @ v \<and> u \<noteq> [] \<and> (\<forall>y\<in>set u. accepts c y) \<longrightarrow> k u v = None"
      show "\<forall>u v. xs = u @ v \<and> (\<forall>y\<in>set u. accepts c y) \<longrightarrow> k ([x] @ u) v = None"
      proof (intro allI impI)
        fix u v assume uv: "xs = u @ v \<and> (\<forall>y\<in>set u. accepts c y)"
        show "k ([x] @ u) v = None" using h [rule_format, of "x # u" v] uv True Cons by simp
      qed
    qed
    finally show ?thesis .
  qed
qed

lemma plus_Some:
  assumes "quantified c Plus k s = Some r"
  shows "\<exists>u v. s = u @ v \<and> u \<noteq> [] \<and> (\<forall>x\<in>set u. accepts c x) \<and> k u v = Some r \<and>
       (\<forall>u' v'. s = u' @ v' \<and> (\<forall>x\<in>set u'. accepts c x) \<and> length u < length u' \<longrightarrow> k u' v' = None)"
proof (cases s)
  case Nil
  then show ?thesis using assms by simp
next
  case (Cons x xs)
  then have ax: "accepts c x" and g: "greedy c k [x] xs = Some r"
    using assms by (auto split: if_splits)
  from greedy_Some [OF g] obtain u v where uv: "xs = u @ v" "\<forall>y\<in>set u. accepts c y"
    "k ([x] @ u) v = Some r"
    "\<forall>u' v'. xs = u' @ v' \<and> (\<forall>y\<in>set u'. accepts c y) \<and> length u < length u' \<longrightarrow> k ([x] @ u') v' = None"
    by blast
  have "\<forall>u' v'. s = u' @ v' \<and> (\<forall>y\<in>set u'. accepts c y) \<and> length (x # u) < length u' \<longrightarrow> k u' v' = None"
  proof (intro allI impI)
    fix u' v' assume h: "s = u' @ v' \<and> (\<forall>y\<in>set u'. accepts c y) \<and> length (x # u) < length u'"
    then obtain w where w: "u' = x # w" "xs = w @ v'" using Cons by (cases u') auto
    then show "k u' v' = None" using uv(4) [rule_format, of w v'] h by simp
  qed
  moreover have "s = (x # u) @ v" "x # u \<noteq> []" "\<forall>y\<in>set (x # u). accepts c y" "k (x # u) v = Some r"
    using uv ax Cons by simp_all
  ultimately show ?thesis by blast
qed

lemma noLT_simps [simp]: "noLT []" "noLT (x # xs) = (\<not> LineTerminator x \<and> noLT xs)"
  "noLT (xs @ ys) = (noLT xs \<and> noLT ys)"
  by (auto simp: noLT_def)

lemma noLT_colon_at [simp]: "\<not> LineTerminator (CHR '':'')" "\<not> LineTerminator (CHR ''@'')"
  by (simp_all add: LineTerminator_def)

lemma greedy_to_end:
  "greedy c (\<lambda>m rest. if rest = [] then Some (f m) else None) acc s =
     (if \<forall>x\<in>set s. accepts c x then Some (f (acc @ s)) else None)"
  by (induction s arbitrary: acc) auto

section \<open>The image pattern\<close>

lemma run_tail3:
  "run [Cap Dot Plus, Eol] st s caps = (if s \<noteq> [] \<and> noLT s then Some (caps @ [s], []) else None)"
proof (cases s)
  case Nil
  then show ?thesis by simp
next
  case (Cons x xs)
  have "run [Cap Dot Plus, Eol] st s caps =
      (if accepts Dot x then greedy Dot (\<lambda>m rest. if rest = [] then Some (caps @ [m], []) else None) [x] xs else None)"
    using Cons by (auto intro!: arg_cong [where f = "\<lambda>k. greedy Dot k [x] xs"] simp: fun_eq_iff)
  then show ?thesis using Cons by (auto simp: greedy_to_end noLT_def)
qed

lemma run_tail2:
  "run [Atom (Lit (CHR ''@'')) Once, Cap Dot Plus, Eol] st s caps =
     (case s of [] \<Rightarrow> None
      | x # d \<Rightarrow> if x = CHR ''@'' \<and> d \<noteq> [] \<and> noLT d then Some (caps @ [d], []) else None)"
proof (cases s)
  case Nil
  then show ?thesis by simp
next
  case (Cons x d)
  have "run [Atom (Lit (CHR ''@'')) Once, Cap Dot Plus, Eol] st s caps =
      (if x = CHR ''@'' then run [Cap Dot Plus, Eol] False d caps else None)"
    using Cons by simp
  then show ?thesis using Cons by (simp add: run_tail3 del: run.simps)
qed

lemma run_tail1:
  "run [Cap Dot Plus, Atom (Lit (CHR ''@'')) Once, Cap Dot Plus, Eol] st s caps =
     quantified Dot Plus (\<lambda>m rest. run [Atom (Lit (CHR ''@'')) Once, Cap Dot Plus, Eol] (st \<and> m = []) rest (caps @ [m])) s"
  by simp

lemma tail1_None:
  "run [Cap Dot Plus, Atom (Lit (CHR ''@'')) Once, Cap Dot Plus, Eol] st s caps = None
     \<longleftrightarrow> \<not> (\<exists>t d. tag_digest s t d)"
proof -
  have "run [Cap Dot Plus, Atom (Lit (CHR ''@'')) Once, Cap Dot Plus, Eol] st s caps = None \<longleftrightarrow>
    (\<forall>u v. s = u @ v \<and> u \<noteq> [] \<and> (\<forall>x\<in>set u. accepts Dot x) \<longrightarrow>
       run [Atom (Lit (CHR ''@'')) Once, Cap Dot Plus, Eol] (st \<and> u = []) v (caps @ [u]) = None)"
    unfolding run_tail1 plus_None ..
  also have "\<dots> \<longleftrightarrow> (\<forall>u v. s = u @ v \<and> u \<noteq> [] \<and> noLT u \<longrightarrow> \<not> (\<exists>d. v = CHR ''@'' # d \<and> d \<noteq> [] \<and> noLT d))"
    unfolding run_tail2 by (auto simp: noLT_def split: list.splits)
  also have "\<dots> \<longleftrightarrow> \<not> (\<exists>t d. tag_digest s t d)"
    by (auto simp: tag_digest_def)
  finally show ?thesis .
qed

lemma tail1_Some:
  assumes "run [Cap Dot Plus, Atom (Lit (CHR ''@'')) Once, Cap Dot Plus, Eol] st s caps = Some r"
  shows "\<exists>t d. tag_digest s t d \<and> r = (caps @ [t, d], []) \<and>
     (\<forall>t' d'. tag_digest s t' d' \<longrightarrow> length t' \<le> length t)"
proof -
  let ?k = "\<lambda>m rest. run [Atom (Lit (CHR ''@'')) Once, Cap Dot Plus, Eol] (st \<and> m = []) rest (caps @ [m])"
  from assms have "quantified Dot Plus ?k s = Some r" unfolding run_tail1 .
  from plus_Some [OF this] obtain u v where uv: "s = u @ v" "u \<noteq> []" "\<forall>x\<in>set u. accepts Dot x"
    "?k u v = Some r"
    "\<forall>u' v'. s = u' @ v' \<and> (\<forall>x\<in>set u'. accepts Dot x) \<and> length u < length u' \<longrightarrow> ?k u' v' = None"
    by blast
  from uv(4) have "(case v of [] \<Rightarrow> None
      | x # d \<Rightarrow> if x = CHR ''@'' \<and> d \<noteq> [] \<and> noLT d then Some ((caps @ [u]) @ [d], []) else None) = Some r"
    unfolding run_tail2 .
  then obtain d where d: "v = CHR ''@'' # d" "d \<noteq> []" "noLT d" "r = (caps @ [u, d], [])"
    by (cases v) (auto split: if_splits)
  have td: "tag_digest s u d" using uv d by (simp add: tag_digest_def noLT_def)
  have "\<forall>t' d'. tag_digest s t' d' \<longrightarrow> length t' \<le> length u"
  proof (intro allI impI)
    fix t' d' assume h: "tag_digest s t' d'"
    then have a: "?k t' (CHR ''@'' # d') \<noteq> None" unfolding run_tail2 by (simp add: tag_digest_def)
    have b: "s = t' @ (CHR ''@'' # d')" "\<forall>x\<in>set t'. accepts Dot x"
      using h by (auto simp: tag_digest_def noLT_def)
    have "\<not> length u < length t'"
    proof
      assume "length u < length t'"
      then have "?k t' (CHR ''@'' # d') = None"
        using uv(5) [rule_format, of t' "CHR ''@'' # d'"] b by simp
      then show False using a by simp
    qed
    then show "length t' \<le> length u" by simp
  qed
  then show ?thesis using td d by blast
qed

lemma run_tail0:
  "run [Atom (Lit (CHR '':'')) Once, Cap Dot Plus, Atom (Lit (CHR ''@'')) Once, Cap Dot Plus, Eol] st s caps =
     (case s of [] \<Rightarrow> None
      | x # r \<Rightarrow> if x = CHR '':'' then run [Cap Dot Plus, Atom (Lit (CHR ''@'')) Once, Cap Dot Plus, Eol] False r caps else None)"
  by (cases s) simp_all

lemma run_image:
  "run re_image True s [] =
     quantified Dot Plus (\<lambda>m rest. run [Atom (Lit (CHR '':'')) Once, Cap Dot Plus, Atom (Lit (CHR ''@'')) Once, Cap Dot Plus, Eol] (m = []) rest [m]) s"
  by (simp add: re_image_def)

lemma image_None:
  "run re_image True s [] = None \<longleftrightarrow> \<not> (\<exists>n t d. name_rest s n t d)"
proof -
  let ?ns = "[Cap Dot Plus, Atom (Lit (CHR ''@'')) Once, Cap Dot Plus, Eol]"
  have "run re_image True s [] = None \<longleftrightarrow>
    (\<forall>u v. s = u @ v \<and> u \<noteq> [] \<and> (\<forall>x\<in>set u. accepts Dot x) \<longrightarrow>
       run (Atom (Lit (CHR '':'')) Once # ?ns) (u = []) v [u] = None)"
    unfolding run_image plus_None ..
  also have "\<dots> \<longleftrightarrow> (\<forall>u v. s = u @ v \<and> u \<noteq> [] \<and> noLT u \<longrightarrow>
       \<not> (\<exists>r. v = CHR '':'' # r \<and> (\<exists>t d. tag_digest r t d)))"
    unfolding run_tail0 by (auto simp: noLT_def tail1_None simp del: run.simps split: list.splits)
  also have "\<dots> \<longleftrightarrow> \<not> (\<exists>n t d. name_rest s n t d)"
    by (auto simp: name_rest_def)
  finally show ?thesis .
qed

lemma image_Some:
  assumes "run re_image True s [] = Some r"
  shows "\<exists>n t d. name_rest s n t d \<and> r = ([n, t, d], []) \<and>
     (\<forall>n' t' d'. name_rest s n' t' d' \<longrightarrow> length n' < length n \<or> (n' = n \<and> length t' \<le> length t))"
proof -
  let ?ns = "[Cap Dot Plus, Atom (Lit (CHR ''@'')) Once, Cap Dot Plus, Eol]"
  let ?k = "\<lambda>m rest. run (Atom (Lit (CHR '':'')) Once # ?ns) (m = []) rest [m]"
  from assms have "quantified Dot Plus ?k s = Some r" unfolding run_image .
  from plus_Some [OF this] obtain u v where uv: "s = u @ v" "u \<noteq> []" "\<forall>x\<in>set u. accepts Dot x"
    "?k u v = Some r"
    "\<forall>u' v'. s = u' @ v' \<and> (\<forall>x\<in>set u'. accepts Dot x) \<and> length u < length u' \<longrightarrow> ?k u' v' = None"
    by blast
  from uv(4) have "(case v of [] \<Rightarrow> None
      | x # r' \<Rightarrow> if x = CHR '':'' then run ?ns False r' [u] else None) = Some r"
    unfolding run_tail0 .
  then obtain w where w: "v = CHR '':'' # w" "run ?ns False w [u] = Some r"
    by (cases v) (auto split: if_splits simp del: run.simps)
  from tail1_Some [OF w(2)] obtain t d where td: "tag_digest w t d" "r = ([u] @ [t, d], [])"
    "\<forall>t' d'. tag_digest w t' d' \<longrightarrow> length t' \<le> length t"
    by blast
  have nr: "name_rest s u t d" using uv w td by (auto simp: name_rest_def noLT_def)
  have "\<forall>n' t' d'. name_rest s n' t' d' \<longrightarrow> length n' < length u \<or> (n' = u \<and> length t' \<le> length t)"
  proof (intro allI impI)
    fix n' t' d' assume h: "name_rest s n' t' d'"
    then obtain r' where r': "s = n' @ CHR '':'' # r'" "n' \<noteq> []" "noLT n'" "tag_digest r' t' d'"
      by (auto simp: name_rest_def)
    have "run ?ns False r' [n'] \<noteq> None" using r'(4) tail1_None by blast
    then have "?k n' (CHR '':'' # r') \<noteq> None" unfolding run_tail0 by simp
    then have a: "?k n' (CHR '':'' # r') \<noteq> None" .
    have b: "\<forall>x\<in>set n'. accepts Dot x" using r' by (simp add: noLT_def)
    have le: "\<not> length u < length n'"
    proof
      assume "length u < length n'"
      then have "?k n' (CHR '':'' # r') = None"
        using uv(5) [rule_format, of n' "CHR '':'' # r'"] b r'(1) by simp
      then show False using a by simp
    qed
    show "length n' < length u \<or> (n' = u \<and> length t' \<le> length t)"
    proof (cases "length n' < length u")
      case True
      then show ?thesis by simp
    next
      case False
      then have "length n' = length u" using le by simp
      then have "n' = u \<and> CHR '':'' # r' = v" using r'(1) uv(1) by (metis append_eq_append_conv)
      then have "n' = u" "r' = w" using w by simp_all
      then show ?thesis using td(3) r'(4) by blast
    qed
  qed
  then show ?thesis using nr td by auto
qed

lemma exec_from_Bol: "exec_from (Bol # ns) False s = None"
  by (induction s) simp_all

lemma String_match_image:
  "String_match s re_image =
     (case run re_image True s [] of None \<Rightarrow> None
      | Some (caps, rest) \<Rightarrow> Some (take (length s - length rest) s # caps))"
proof (cases s)
  case Nil
  then show ?thesis by (simp add: String_match_def split: option.splits)
next
  case (Cons x xs)
  have "exec_from re_image False xs = None"
    unfolding re_image_def by (rule exec_from_Bol)
  then show ?thesis using Cons by (simp add: String_match_def split: option.splits)
qed

lemma name_rest_image_parts: "name_rest s n t d \<longleftrightarrow> image_parts s n t d"
proof
  assume "name_rest s n t d"
  then have "s = n @ CHR '':'' # t @ CHR ''@'' # d" "n \<noteq> []" "t \<noteq> []" "d \<noteq> []"
    "noLT n" "noLT t" "noLT d"
    by (simp_all add: name_rest_def tag_digest_def)
  then have "noLT s" by simp
  then show "image_parts s n t d"
    using \<open>s = n @ CHR '':'' # t @ CHR ''@'' # d\<close> \<open>n \<noteq> []\<close> \<open>t \<noteq> []\<close> \<open>d \<noteq> []\<close>
    unfolding image_parts_def noLT_def by simp
next
  assume h: "image_parts s n t d"
  then have e: "s = n @ CHR '':'' # t @ CHR ''@'' # d" "n \<noteq> []" "t \<noteq> []" "d \<noteq> []"
    and "noLT s"
    by (simp_all add: image_parts_def noLT_def)
  then have "noLT n" "noLT t" "noLT d" by simp_all
  then show "name_rest s n t d"
    using e unfolding name_rest_def tag_digest_def by simp
qed

text \<open>The image pattern matches exactly the strings of the form name:tag@digest.\<close>

lemma image_match_None:
  "String_match img re_image = None \<longleftrightarrow> \<not> (\<exists>n t d. image_parts img n t d)"
  unfolding String_match_image
  using image_None [of img] by (auto simp: name_rest_image_parts split: option.splits)

text \<open>The components it captures: the longest name, then the longest tag.\<close>

lemma image_match_Some:
  assumes "String_match img re_image = Some m"
  shows "\<exists>n t d. m = [img, n, t, d] \<and> image_parts img n t d \<and>
     (\<forall>n' t' d'. image_parts img n' t' d' \<longrightarrow> length n' < length n \<or> (n' = n \<and> length t' \<le> length t))"
proof -
  from assms obtain caps rest where r: "run re_image True img [] = Some (caps, rest)"
    "m = take (length img - length rest) img # caps"
    unfolding String_match_image by (auto split: option.splits)
  from image_Some [OF r(1)] show ?thesis using r(2) by (auto simp: name_rest_image_parts)
qed

section \<open>The volume patterns\<close>

text \<open>The placeholder prefix, with the optional slash, before any rest of a pattern.\<close>

lemma run_braced_slash:
  "run (re_app_data_dir @ Atom (Lit (CHR ''/'')) Opt # ns) st (''${APP_DATA_DIR}/'' @ s) caps =
     (case run ns False s caps of Some r \<Rightarrow> Some r
      | None \<Rightarrow> (case run ns False (CHR ''/'' # s) caps of Some r \<Rightarrow> Some r
         | None \<Rightarrow> run ns False (''}/'' @ s) caps))"
  by (simp add: re_app_data_dir_def lits_def split: option.splits)

lemma run_plain_slash:
  "run (re_app_data_dir @ Atom (Lit (CHR ''/'')) Opt # ns) st (''$APP_DATA_DIR/'' @ s) caps =
     (case run ns False s caps of Some r \<Rightarrow> Some r
      | None \<Rightarrow> run ns False (CHR ''/'' # s) caps)"
  by (simp add: re_app_data_dir_def lits_def split: option.splits)

lemma tail_lazy_colon:
  assumes "noLT sub" "CHR '':'' \<notin> set sub"
  shows "run [Cap Dot LazyStar, Atom (Lit (CHR '':'')) Once] st (sub @ CHR '':'' # rest) caps = Some (caps @ [sub], rest)"
proof -
  let ?k = "\<lambda>m r. run [Atom (Lit (CHR '':'')) Once] (st \<and> m = []) r (caps @ [m])"
  have "run [Cap Dot LazyStar, Atom (Lit (CHR '':'')) Once] st (sub @ CHR '':'' # rest) caps
      = lazy Dot ?k [] (sub @ CHR '':'' # rest)"
    by simp
  also have "\<dots> = lazy Dot ?k ([] @ sub) (CHR '':'' # rest)"
  proof (rule lazy_skip)
    fix a assume "a \<in> set sub"
    then show "accepts Dot a" using assms by (simp add: noLT_def)
  next
    fix a m r assume "a \<in> set sub"
    then have "a \<noteq> CHR '':''" using assms by auto
    then show "?k m (a # r) = None" by simp
  qed
  also have "\<dots> = Some (caps @ [sub], rest)" by simp
  finally show ?thesis .
qed

lemma tail_lazy_eol:
  assumes "noLT sub"
  shows "run [Cap Dot LazyStar, Eol] st sub caps = Some (caps @ [sub], [])"
proof -
  let ?k = "\<lambda>m r. run [Eol] (st \<and> m = []) r (caps @ [m])"
  have "run [Cap Dot LazyStar, Eol] st sub caps = lazy Dot ?k [] (sub @ [])"
    by simp
  also have "\<dots> = lazy Dot ?k ([] @ sub) []"
  proof (rule lazy_skip)
    fix a assume "a \<in> set sub"
    then show "accepts Dot a" using assms by (simp add: noLT_def)
  next
    fix a m r assume "a \<in> set sub"
    show "?k m (a # r) = None" by simp
  qed
  also have "\<dots> = Some (caps @ [sub], [])" by simp
  finally show ?thesis .
qed

lemma match_at_start:
  "run re True (x # xs) [] = Some (caps, rest) \<Longrightarrow>
   String_match (x # xs) re = Some (take (length (x # xs) - length rest) (x # xs) # caps)"
  by (simp add: String_match_def)

lemma no_match_from_start:
  "run (Atom (Lit a) Once # ns) True (x # xs) [] = None \<Longrightarrow> a \<notin> set xs \<Longrightarrow>
   String_match (x # xs) (Atom (Lit a) Once # ns) = None"
  by (simp add: String_match_def exec_from_no_first del: run.simps)

lemma re_app_data_dir_head:
  "re_app_data_dir @ ns = Atom (Lit (CHR ''$'')) Once # (tl re_app_data_dir @ ns)"
  by (simp add: re_app_data_dir_def)

lemma no_match_dollar:
  assumes "run (re_app_data_dir @ ns) True (CHR ''$'' # xs) [] = None" "CHR ''$'' \<notin> set xs"
  shows "String_match (CHR ''$'' # xs) (re_app_data_dir @ ns) = None"
  using assms unfolding re_app_data_dir_head by (rule no_match_from_start)

lemma direct_colon_match:
  assumes "placeholder ph"
  shows "String_match (ph @ '':'' @ rest) re_direct_colon \<noteq> None"
    and "String_match (ph @ ''/:'' @ rest) re_direct_colon \<noteq> None"
  using assms
  by (auto simp: placeholder_def String_match_def re_direct_colon_def re_app_data_dir_def lits_def)

lemma direct_end_match:
  assumes "placeholder ph"
  shows "String_match ph re_direct_end \<noteq> None"
    and "String_match (ph @ ''/'') re_direct_end \<noteq> None"
  using assms
  by (auto simp: placeholder_def String_match_def re_direct_end_def re_app_data_dir_def lits_def)

lemma app_data_dir_match:
  assumes "placeholder ph"
  shows "String_match (ph @ s) re_app_data_dir \<noteq> None"
  using assms
  by (cases s) (auto simp: placeholder_def String_match_def re_app_data_dir_def lits_def)

lemma direct_colon_no_match:
  assumes "placeholder ph" "c \<noteq> CHR '':''" "CHR ''$'' \<notin> set (c # rest)"
  shows "String_match (ph @ ''/'' @ c # rest) re_direct_colon = None"
proof -
  let ?ns = "[Atom (Lit (CHR ''/'')) Opt, Atom (Lit (CHR '':'')) Once]"
  have "ph = ''$APP_DATA_DIR'' \<or> ph = ''${APP_DATA_DIR}''" using assms by (simp add: placeholder_def)
  then show ?thesis
  proof
    assume ph: "ph = ''$APP_DATA_DIR''"
    have a: "run (re_app_data_dir @ ?ns) True (''$APP_DATA_DIR/'' @ c # rest) [] = None"
      unfolding run_plain_slash using assms by simp
    have "String_match (CHR ''$'' # ''APP_DATA_DIR/'' @ c # rest) (re_app_data_dir @ ?ns) = None"
      by (rule no_match_dollar) (use a assms in simp_all)
    then show ?thesis using ph by (simp add: re_direct_colon_def)
  next
    assume ph: "ph = ''${APP_DATA_DIR}''"
    have a: "run (re_app_data_dir @ ?ns) True (''${APP_DATA_DIR}/'' @ c # rest) [] = None"
      unfolding run_braced_slash using assms by simp
    have "String_match (CHR ''$'' # ''{APP_DATA_DIR}/'' @ c # rest) (re_app_data_dir @ ?ns) = None"
      by (rule no_match_dollar) (use a assms in simp_all)
    then show ?thesis using ph by (simp add: re_direct_colon_def)
  qed
qed

lemma direct_end_no_match:
  assumes "placeholder ph" "sub \<noteq> []" "CHR ''$'' \<notin> set sub"
  shows "String_match (ph @ ''/'' @ sub) re_direct_end = None"
proof -
  let ?ns = "[Atom (Lit (CHR ''/'')) Opt, Eol]"
  have "ph = ''$APP_DATA_DIR'' \<or> ph = ''${APP_DATA_DIR}''" using assms by (simp add: placeholder_def)
  then show ?thesis
  proof
    assume ph: "ph = ''$APP_DATA_DIR''"
    have a: "run (re_app_data_dir @ ?ns) True (''$APP_DATA_DIR/'' @ sub) [] = None"
      unfolding run_plain_slash using assms by simp
    have "String_match (CHR ''$'' # ''APP_DATA_DIR/'' @ sub) (re_app_data_dir @ ?ns) = None"
      by (rule no_match_dollar) (use a assms in simp_all)
    then show ?thesis using ph by (simp add: re_direct_end_def)
  next
    assume ph: "ph = ''${APP_DATA_DIR}''"
    have a: "run (re_app_data_dir @ ?ns) True (''${APP_DATA_DIR}/'' @ sub) [] = None"
      unfolding run_braced_slash using assms by simp
    have "String_match (CHR ''$'' # ''{APP_DATA_DIR}/'' @ sub) (re_app_data_dir @ ?ns) = None"
      by (rule no_match_dollar) (use a assms in simp_all)
    then show ?thesis using ph by (simp add: re_direct_end_def)
  qed
qed

lemma subpath_colon_match:
  assumes "placeholder ph" "noLT sub" "CHR '':'' \<notin> set sub"
  shows "\<exists>m0. String_match (ph @ ''/'' @ sub @ '':'' @ rest) re_subpath_colon = Some [m0, sub]"
proof -
  let ?ns = "[Atom (Lit (CHR ''/'')) Opt, Cap Dot LazyStar, Atom (Lit (CHR '':'')) Once]"
  have t: "run [Cap Dot LazyStar, Atom (Lit (CHR '':'')) Once] False (sub @ CHR '':'' # rest) [] = Some ([] @ [sub], rest)"
    using assms by (intro tail_lazy_colon)
  have "ph = ''$APP_DATA_DIR'' \<or> ph = ''${APP_DATA_DIR}''" using assms by (simp add: placeholder_def)
  then show ?thesis
  proof
    assume ph: "ph = ''$APP_DATA_DIR''"
    have "run (re_app_data_dir @ ?ns) True (''$APP_DATA_DIR/'' @ sub @ CHR '':'' # rest) [] = Some ([sub], rest)"
      unfolding run_plain_slash t by simp
    then have "run (re_app_data_dir @ ?ns) True (CHR ''$'' # ''APP_DATA_DIR/'' @ sub @ CHR '':'' # rest) [] = Some ([sub], rest)"
      by simp
    from match_at_start [OF this] show ?thesis using ph by (simp add: re_subpath_colon_def)
  next
    assume ph: "ph = ''${APP_DATA_DIR}''"
    have "run (re_app_data_dir @ ?ns) True (''${APP_DATA_DIR}/'' @ sub @ CHR '':'' # rest) [] = Some ([sub], rest)"
      unfolding run_braced_slash t by simp
    then have "run (re_app_data_dir @ ?ns) True (CHR ''$'' # ''{APP_DATA_DIR}/'' @ sub @ CHR '':'' # rest) [] = Some ([sub], rest)"
      by simp
    from match_at_start [OF this] show ?thesis using ph by (simp add: re_subpath_colon_def)
  qed
qed

lemma subpath_colon_root:
  assumes "placeholder ph"
  shows "\<exists>m0. String_match (ph @ '':'' @ rest) re_subpath_colon = Some [m0, []]"
  using assms
  by (auto simp: placeholder_def String_match_def re_subpath_colon_def re_app_data_dir_def lits_def)

lemma subpath_end_match:
  assumes "placeholder ph" "noLT sub"
  shows "\<exists>m0. String_match (ph @ ''/'' @ sub) re_subpath_end = Some [m0, sub]"
proof -
  let ?ns = "[Atom (Lit (CHR ''/'')) Opt, Cap Dot LazyStar, Eol]"
  have t: "run [Cap Dot LazyStar, Eol] False sub [] = Some ([] @ [sub], [])"
    using assms by (intro tail_lazy_eol)
  have "ph = ''$APP_DATA_DIR'' \<or> ph = ''${APP_DATA_DIR}''" using assms by (simp add: placeholder_def)
  then show ?thesis
  proof
    assume ph: "ph = ''$APP_DATA_DIR''"
    have "run (re_app_data_dir @ ?ns) True (''$APP_DATA_DIR/'' @ sub) [] = Some ([sub], [])"
      unfolding run_plain_slash t by simp
    then have "run (re_app_data_dir @ ?ns) True (CHR ''$'' # ''APP_DATA_DIR/'' @ sub) [] = Some ([sub], [])"
      by simp
    from match_at_start [OF this] show ?thesis using ph by (simp add: re_subpath_end_def)
  next
    assume ph: "ph = ''${APP_DATA_DIR}''"
    have "run (re_app_data_dir @ ?ns) True (''${APP_DATA_DIR}/'' @ sub) [] = Some ([sub], [])"
      unfolding run_braced_slash t by simp
    then have "run (re_app_data_dir @ ?ns) True (CHR ''$'' # ''{APP_DATA_DIR}/'' @ sub) [] = Some ([sub], [])"
      by simp
    from match_at_start [OF this] show ?thesis using ph by (simp add: re_subpath_end_def)
  qed
qed

lemma subpath_end_root:
  assumes "placeholder ph"
  shows "\<exists>m0. String_match ph re_subpath_end = Some [m0, []]"
  using assms
  by (auto simp: placeholder_def String_match_def re_subpath_end_def re_app_data_dir_def lits_def)

subsection \<open>Where the placeholder patterns match\<close>

lemma take_eq_prefix: "take (length p) s = p \<longleftrightarrow> (\<exists>post. s = p @ post)"
proof
  assume "take (length p) s = p"
  then have "s = p @ drop (length p) s" by (metis append_take_drop_id)
  then show "\<exists>post. s = p @ post" ..
next
  assume "\<exists>post. s = p @ post"
  then show "take (length p) s = p" by auto
qed

lemma occurs_iff: "occurs p v \<longleftrightarrow> (\<exists>pre post. v = pre @ p @ post)"
proof (induction v)
  case Nil
  show ?case by auto
next
  case (Cons x xs)
  show ?case
  proof
    assume "occurs p (x # xs)"
    then consider "take (length p) (x # xs) = p" | "occurs p xs" by auto
    then show "\<exists>pre post. x # xs = pre @ p @ post"
    proof cases
      case 1
      then obtain post where "x # xs = p @ post" unfolding take_eq_prefix ..
      then have "x # xs = [] @ p @ post" by simp
      then show ?thesis by blast
    next
      case 2
      then obtain pre post where "xs = pre @ p @ post" using Cons.IH by blast
      then have "x # xs = (x # pre) @ p @ post" by simp
      then show ?thesis by blast
    qed
  next
    assume "\<exists>pre post. x # xs = pre @ p @ post"
    then obtain pre post where e: "x # xs = pre @ p @ post" by blast
    show "occurs p (x # xs)"
    proof (cases pre)
      case Nil
      then have "take (length p) (x # xs) = p" using e unfolding take_eq_prefix by auto
      then show ?thesis by simp
    next
      case (Cons y ys)
      then have "xs = ys @ p @ post" using e by simp
      then have "occurs p xs" using Cons.IH by blast
      then show ?thesis by simp
    qed
  qed
qed

lemma endsWith_iff: "endsWith p s \<longleftrightarrow> (\<exists>pre. s = pre @ p)"
proof
  assume "endsWith p s"
  then have "s = take (length s - length p) s @ p"
    unfolding endsWith_def by (metis append_take_drop_id)
  then show "\<exists>pre. s = pre @ p" ..
next
  assume "\<exists>pre. s = pre @ p"
  then show "endsWith p s" by (auto simp: endsWith_def)
qed

text \<open>Where a pattern matches, whatever it captures.\<close>

lemma run_lit_ok:
  "run (Atom (Lit a) Once # ns) st s caps \<noteq> None \<longleftrightarrow> (\<exists>r. s = a # r \<and> run ns False r caps \<noteq> None)"
  by (cases s) auto

lemma run_opt_ok:
  "run (Atom (Lit a) Opt # ns) st s caps \<noteq> None \<longleftrightarrow>
     (\<exists>r. s = a # r \<and> run ns False r caps \<noteq> None) \<or> run ns st s caps \<noteq> None"
  by (cases s) (auto split: option.splits)

lemma run_eol_ok: "run [Eol] st s caps \<noteq> None \<longleftrightarrow> s = []"
  by simp

lemma run_lits_ok:
  "run (lits w @ ns) st s caps \<noteq> None \<longleftrightarrow> (\<exists>r. s = w @ r \<and> run ns (st \<and> w = []) r caps \<noteq> None)"
proof (induction w arbitrary: st s)
  case Nil
  show ?case by (simp add: lits_def)
next
  case (Cons a w)
  have "run (lits (a # w) @ ns) st s caps \<noteq> None \<longleftrightarrow>
      (\<exists>r. s = a # r \<and> run (lits w @ ns) False r caps \<noteq> None)"
    unfolding lits_def list.map append_Cons by (rule run_lit_ok)
  also have "\<dots> \<longleftrightarrow> (\<exists>r. s = a # r \<and> (\<exists>r'. r = w @ r' \<and> run ns False r' caps \<noteq> None))"
    unfolding Cons.IH by simp
  also have "\<dots> \<longleftrightarrow> (\<exists>r. s = (a # w) @ r \<and> run ns (st \<and> a # w = []) r caps \<noteq> None)"
    by auto
  finally show ?case .
qed

lemma exec_from_ok:
  "exec_from re st v \<noteq> None \<longleftrightarrow> (\<exists>pre suf. v = pre @ suf \<and> run re (st \<and> pre = []) suf [] \<noteq> None)"
proof (induction v arbitrary: st)
  case Nil
  show ?case by (auto split: option.splits)
next
  case (Cons x xs)
  have "exec_from re st (x # xs) \<noteq> None \<longleftrightarrow>
      run re st (x # xs) [] \<noteq> None \<or> exec_from re False xs \<noteq> None"
    by (auto split: option.splits)
  also have "\<dots> \<longleftrightarrow> run re st (x # xs) [] \<noteq> None \<or>
      (\<exists>pre suf. xs = pre @ suf \<and> run re False suf [] \<noteq> None)"
    unfolding Cons.IH by simp
  also have "\<dots> \<longleftrightarrow> (\<exists>pre suf. x # xs = pre @ suf \<and> run re (st \<and> pre = []) suf [] \<noteq> None)"
  proof
    assume "run re st (x # xs) [] \<noteq> None \<or> (\<exists>pre suf. xs = pre @ suf \<and> run re False suf [] \<noteq> None)"
    then show "\<exists>pre suf. x # xs = pre @ suf \<and> run re (st \<and> pre = []) suf [] \<noteq> None"
    proof
      assume "run re st (x # xs) [] \<noteq> None"
      then have "x # xs = [] @ (x # xs) \<and> run re (st \<and> [] = ([]::string)) (x # xs) [] \<noteq> None" by simp
      then show ?thesis by blast
    next
      assume "\<exists>pre suf. xs = pre @ suf \<and> run re False suf [] \<noteq> None"
      then obtain pre suf where "xs = pre @ suf" "run re False suf [] \<noteq> None" by blast
      then have "x # xs = (x # pre) @ suf \<and> run re (st \<and> x # pre = []) suf [] \<noteq> None" by simp
      then show ?thesis by blast
    qed
  next
    assume "\<exists>pre suf. x # xs = pre @ suf \<and> run re (st \<and> pre = []) suf [] \<noteq> None"
    then obtain pre suf where e: "x # xs = pre @ suf" "run re (st \<and> pre = []) suf [] \<noteq> None" by blast
    show "run re st (x # xs) [] \<noteq> None \<or> (\<exists>pre suf. xs = pre @ suf \<and> run re False suf [] \<noteq> None)"
    proof (cases pre)
      case Nil
      then show ?thesis using e by simp
    next
      case (Cons y ys)
      then have "xs = ys @ suf \<and> run re False suf [] \<noteq> None" using e by simp
      then show ?thesis by blast
    qed
  qed
  finally show ?case .
qed

lemma run_placeholder_ok:
  "run (re_app_data_dir @ ns) st s caps \<noteq> None \<longleftrightarrow>
     (\<exists>p\<in>set placeholderForms. \<exists>r. s = p @ r \<and> run ns False r caps \<noteq> None)"
proof -
  let ?close = "Atom (Lit (CHR ''}'')) Opt # ns"
  have close: "run ?close False r caps \<noteq> None \<longleftrightarrow>
      (\<exists>r'. r = CHR ''}'' # r' \<and> run ns False r' caps \<noteq> None) \<or> run ns False r caps \<noteq> None" for r
    by (rule run_opt_ok)
  have name: "run (lits ''APP_DATA_DIR'' @ ?close) False r caps \<noteq> None \<longleftrightarrow>
      (\<exists>r'. r = ''APP_DATA_DIR'' @ r' \<and> run ?close False r' caps \<noteq> None)" for r
    unfolding run_lits_ok by simp
  have re: "re_app_data_dir @ ns =
      Atom (Lit (CHR ''$'')) Once # Atom (Lit (CHR ''{'')) Opt # (lits ''APP_DATA_DIR'' @ ?close)"
    by (simp add: re_app_data_dir_def)
  have "run (re_app_data_dir @ ns) st s caps \<noteq> None \<longleftrightarrow>
      (\<exists>r. s = CHR ''$'' # r \<and>
         ((\<exists>r'. r = CHR ''{'' # r' \<and> run (lits ''APP_DATA_DIR'' @ ?close) False r' caps \<noteq> None) \<or>
          run (lits ''APP_DATA_DIR'' @ ?close) False r caps \<noteq> None))"
    unfolding re run_lit_ok run_opt_ok ..
  also have "\<dots> \<longleftrightarrow> (\<exists>r. s = ''$APP_DATA_DIR'' @ r \<and> run ns False r caps \<noteq> None) \<or>
      (\<exists>r. s = ''${APP_DATA_DIR'' @ r \<and> run ns False r caps \<noteq> None) \<or>
      (\<exists>r. s = ''$APP_DATA_DIR}'' @ r \<and> run ns False r caps \<noteq> None) \<or>
      (\<exists>r. s = ''${APP_DATA_DIR}'' @ r \<and> run ns False r caps \<noteq> None)"
    unfolding name close by auto
  also have "\<dots> \<longleftrightarrow> (\<exists>p\<in>set placeholderForms. \<exists>r. s = p @ r \<and> run ns False r caps \<noteq> None)"
    unfolding placeholderForms_def by simp
  finally show ?thesis .
qed

lemma run_skip_other:
  "x \<noteq> CHR ''$'' \<Longrightarrow> run (re_app_data_dir @ ns) st (x # xs) caps = None"
  by (simp add: re_app_data_dir_def)

lemma exec_from_skip_other:
  "x \<noteq> CHR ''$'' \<Longrightarrow> exec_from (re_app_data_dir @ ns) st (x # xs) = exec_from (re_app_data_dir @ ns) False xs"
  using run_skip_other [of x ns st xs "[]"] by simp

lemma exec_from_start:
  "exec_from (re_app_data_dir @ ns) st v \<noteq> None \<longleftrightarrow> exec_from (re_app_data_dir @ ns) True v \<noteq> None"
  unfolding exec_from_ok run_placeholder_ok ..

lemma exec_from_Cons_ok:
  "exec_from re st (x # xs) \<noteq> None \<longleftrightarrow> run re st (x # xs) [] \<noteq> None \<or> exec_from re False xs \<noteq> None"
  by (auto split: option.splits)

text \<open>After the placeholder and a slash, a match can only start further on.\<close>

lemma match_past_placeholder:
  assumes "placeholder ph" "\<And>r. run ns False (CHR ''/'' # c # r) [] = None"
    "\<And>r. run ns False (''}/'' @ c # r) [] = None"
  shows "String_match (ph @ ''/'' @ c # rest) (re_app_data_dir @ ns) \<noteq> None \<longleftrightarrow>
     String_match (c # rest) (re_app_data_dir @ ns) \<noteq> None"
proof -
  let ?re = "re_app_data_dir @ ns"
  have start: "run ?re True (ph @ ''/'' @ c # rest) [] = None"
  proof (rule ccontr)
    assume "run ?re True (ph @ ''/'' @ c # rest) [] \<noteq> None"
    then obtain p r where p: "p \<in> set placeholderForms" "ph @ ''/'' @ c # rest = p @ r"
      "run ns False r [] \<noteq> None"
      unfolding run_placeholder_ok by blast
    from assms(1) p(1) p(2) have "r = CHR ''/'' # c # rest \<or> r = ''}/'' @ c # rest"
      by (auto simp: placeholder_def placeholderForms_def)
    then show False using p(3) assms(2) assms(3) by auto
  qed
  have skip: "exec_from ?re True (ph @ ''/'' @ c # rest) \<noteq> None \<longleftrightarrow> exec_from ?re False (c # rest) \<noteq> None"
  proof -
    from assms(1) consider "ph = ''$APP_DATA_DIR''" | "ph = ''${APP_DATA_DIR}''"
      by (auto simp: placeholder_def)
    then show ?thesis
    proof cases
      case 1
      have "exec_from ?re True (''$APP_DATA_DIR/'' @ c # rest) \<noteq> None \<longleftrightarrow>
          exec_from ?re False (''APP_DATA_DIR/'' @ c # rest) \<noteq> None"
        using start unfolding 1 by (simp only: append_Cons append_Nil exec_from_Cons_ok) simp
      also have "exec_from ?re False (''APP_DATA_DIR/'' @ c # rest) = exec_from ?re False (c # rest)"
        by (simp add: exec_from_skip_other del: exec_from.simps)
      finally show ?thesis unfolding 1 by simp
    next
      case 2
      have "exec_from ?re True (''${APP_DATA_DIR}/'' @ c # rest) \<noteq> None \<longleftrightarrow>
          exec_from ?re False (''{APP_DATA_DIR}/'' @ c # rest) \<noteq> None"
        using start unfolding 2 by (simp only: append_Cons append_Nil exec_from_Cons_ok) simp
      also have "exec_from ?re False (''{APP_DATA_DIR}/'' @ c # rest) = exec_from ?re False (c # rest)"
        by (simp add: exec_from_skip_other del: exec_from.simps)
      finally show ?thesis unfolding 2 by simp
    qed
  qed
  show ?thesis unfolding String_match_def skip by (rule exec_from_start)
qed

lemma run_slash_colon_ok:
  "run [Atom (Lit (CHR ''/'')) Opt, Atom (Lit (CHR '':'')) Once] st r caps \<noteq> None \<longleftrightarrow>
     (\<exists>post. r = '':'' @ post) \<or> (\<exists>post. r = ''/:'' @ post)"
  unfolding run_opt_ok run_lit_ok by auto

lemma run_slash_eol_ok:
  "run [Atom (Lit (CHR ''/'')) Opt, Eol] st r caps \<noteq> None \<longleftrightarrow> r = [] \<or> r = ''/''"
  unfolding run_opt_ok run_eol_ok by auto

lemma direct_colon_iff: "String_match v re_direct_colon \<noteq> None \<longleftrightarrow> directMountText v"
proof -
  have "String_match v re_direct_colon \<noteq> None \<longleftrightarrow>
      (\<exists>pre suf. v = pre @ suf \<and> (\<exists>p\<in>set placeholderForms. \<exists>r. suf = p @ r \<and>
         ((\<exists>post. r = '':'' @ post) \<or> (\<exists>post. r = ''/:'' @ post))))"
    unfolding String_match_def re_direct_colon_def exec_from_ok run_placeholder_ok run_slash_colon_ok ..
  also have "\<dots> \<longleftrightarrow> (\<exists>p\<in>set placeholderForms.
      (\<exists>pre post. v = pre @ (p @ '':'') @ post) \<or> (\<exists>pre post. v = pre @ (p @ ''/:'') @ post))"
    by (simp only: append_assoc) blast
  finally show ?thesis unfolding directMountText_def occurs_iff .
qed

lemma direct_end_iff: "String_match src re_direct_end \<noteq> None \<longleftrightarrow> directMountSource src"
proof -
  have "String_match src re_direct_end \<noteq> None \<longleftrightarrow>
      (\<exists>pre suf. src = pre @ suf \<and> (\<exists>p\<in>set placeholderForms. \<exists>r. suf = p @ r \<and> (r = [] \<or> r = ''/'')))"
    unfolding String_match_def re_direct_end_def exec_from_ok run_placeholder_ok run_slash_eol_ok ..
  also have "\<dots> \<longleftrightarrow> (\<exists>p\<in>set placeholderForms. (\<exists>pre. src = pre @ p @ []) \<or> (\<exists>pre. src = pre @ p @ ''/''))"
    by blast
  finally show ?thesis unfolding directMountSource_def endsWith_iff by simp
qed

lemma directMountText_subpath:
  assumes "placeholder ph" "sub \<noteq> []" "hd sub \<noteq> CHR '':''"
  shows "directMountText (ph @ ''/'' @ sub @ rest) \<longleftrightarrow> directMountText (sub @ rest)"
proof -
  obtain c cs where sub: "sub = c # cs" "c \<noteq> CHR '':''" using assms(2) assms(3) by (cases sub) auto
  have "String_match (ph @ ''/'' @ c # (cs @ rest)) re_direct_colon \<noteq> None \<longleftrightarrow>
      String_match (c # (cs @ rest)) re_direct_colon \<noteq> None"
    unfolding re_direct_colon_def
    by (rule match_past_placeholder [OF assms(1)]) (use sub(2) in simp_all)
  then show ?thesis unfolding direct_colon_iff sub(1) by simp
qed

lemma directMountSource_subpath:
  assumes "placeholder ph" "sub \<noteq> []"
  shows "directMountSource (ph @ ''/'' @ sub) \<longleftrightarrow> directMountSource sub"
proof -
  obtain c cs where sub: "sub = c # cs" using assms(2) by (cases sub) auto
  have "String_match (ph @ ''/'' @ c # cs) re_direct_end \<noteq> None \<longleftrightarrow>
      String_match (c # cs) re_direct_end \<noteq> None"
    unfolding re_direct_end_def
    by (rule match_past_placeholder [OF assms(1)]) simp_all
  then show ?thesis unfolding direct_end_iff sub(1) .
qed

lemma directMountText_root:
  assumes "placeholder ph" "mnt = ph \<or> mnt = ph @ ''/''"
  shows "directMountText (mnt @ '':'' @ target)" "directMountSource mnt"
proof -
  have "String_match (mnt @ '':'' @ target) re_direct_colon \<noteq> None"
    using assms(2) direct_colon_match [OF assms(1), of target] by auto
  then show "directMountText (mnt @ '':'' @ target)" unfolding direct_colon_iff .
  have "String_match mnt re_direct_end \<noteq> None"
    using assms(2) direct_end_match [OF assms(1)] by auto
  then show "directMountSource mnt" unfolding direct_end_iff .
qed

section \<open>The structure of the compose validator\<close>

lemma pushes_return [simp]: "pushes Inr"
  by (simp add: pushes_def)

lemma pushes_push [simp]: "pushes (\<lambda>result. Inr (result @ ds))"
  by (simp add: pushes_def)

lemma pushes_throw [simp]: "pushes (\<lambda>result. Inl e)"
  by (simp add: pushes_def)

lemma pushes_if: "pushes f \<Longrightarrow> pushes g \<Longrightarrow> pushes (\<lambda>result. if b then f result else g result)"
  by (cases b) simp_all

lemma pushes_bindE: "(\<And>x. pushes (f x)) \<Longrightarrow> pushes (\<lambda>result. bindE m (\<lambda>x. f x result))"
  by (cases m) simp_all

lemma pushes_case_Str:
  "(\<And>src. pushes (f src)) \<Longrightarrow> pushes (\<lambda>result. case source of Str src \<Rightarrow> f src result | _ \<Rightarrow> Inl e)"
  by (cases source) simp_all

lemma pushes_case_option:
  "pushes f \<Longrightarrow> (\<And>x. pushes (g x)) \<Longrightarrow> pushes (\<lambda>result. case v of None \<Rightarrow> f result | Some x \<Rightarrow> g x result)"
  by (cases v) simp_all

lemma pushes_imageCheck: "pushes (imageCheck E content doc service)"
proof -
  have "pushes (\<lambda>result. imageCheck E content doc service result)"
    unfolding imageCheck_def
    by (intro pushes_bindE pushes_if pushes_case_Str pushes_case_option) simp_all
  then show ?thesis .
qed

lemma pushes_booleanEntry: "pushes (booleanEntry E content service label entry)"
proof -
  have "pushes (\<lambda>result. booleanEntry E content service label entry result)"
    unfolding booleanEntry_def by (cases entry) (simp add: pushes_def)
  then show ?thesis .
qed

lemma pushes_booleanCheck: "pushes (booleanCheck E content doc service)"
proof -
  have "pushes (\<lambda>result. booleanCheck E content doc service result)"
    unfolding booleanCheck_def
    by (intro pushes_bindE forOf_pushes pushes_booleanEntry)
  then show ?thesis .
qed

lemma pushes_directMountVolume: "pushes (directMountVolume E content service volume)"
proof -
  have "pushes (\<lambda>result. directMountVolume E content service volume result)"
    unfolding directMountVolume_def
    by (cases volume) (auto intro!: pushes_if pushes_bindE pushes_case_Str)
  then show ?thesis .
qed

lemma pushes_directMountCheck: "pushes (directMountCheck E content doc service)"
proof -
  have "pushes (\<lambda>result. directMountCheck E content doc service result)"
    unfolding directMountCheck_def
    by (intro pushes_bindE pushes_if forOf_pushes pushes_directMountVolume pushes_return)
  then show ?thesis .
qed

lemma pushes_missingFileVolume: "pushes (missingFileVolume E content files appId service volume)"
proof -
  have "pushes (\<lambda>result. missingFileVolume E content files appId service volume result)"
    unfolding missingFileVolume_def
    by (cases volume) (auto intro!: pushes_if pushes_bindE pushes_case_Str pushes_case_option)
  then show ?thesis .
qed

lemma pushes_missingFileCheck: "pushes (missingFileCheck E content files appId doc service)"
proof -
  have "pushes (\<lambda>result. missingFileCheck E content files appId doc service result)"
    unfolding missingFileCheck_def
    by (intro pushes_bindE pushes_if forOf_pushes pushes_missingFileVolume pushes_return)
  then show ?thesis .
qed


lemma forOf_from:
  assumes "\<And>x. pushes (body x)"
  shows "forOf xs body s = Inr r \<longleftrightarrow> (\<exists>ds. forOf xs body [] = Inr ds \<and> r = s @ ds)"
  using pushesD [OF forOf_pushes [OF assms, where xs = xs], where s = s]
  by (cases "forOf xs body []") auto

lemma Object_keys_coalesce:
  "Object_keys (coalesce v (Obj [])) = Inr (map fst (ownEntries (coalesce v (Obj []))))"
  by (cases v) (simp_all add: Object_keys_def coalesce_def)

lemma serviceNames_Inr:
  "getProp doc ''services'' = Inr v \<Longrightarrow> serviceNames doc = map fst (ownEntries (coalesce v (Obj [])))"
  by (simp add: serviceNames_def)

text \<open>The result of the four loops: what each pushes on an empty array, in order.\<close>

lemma semanticChecks_Inr:
  assumes "YAML_parse E True content = Inr doc"
  shows "semanticChecks E content files appId mocked = Inr rs \<longleftrightarrow>
    (\<exists>r1 r2 r3 r4.
       getProp mocked ''services'' \<noteq> Inl TypeError \<and>
       forOf (serviceNames mocked) (imageCheck E content mocked) [] = Inr r1 \<and>
       forOf (serviceNames mocked) (booleanCheck E content mocked) [] = Inr r2 \<and>
       getProp doc ''services'' \<noteq> Inl TypeError \<and>
       forOf (serviceNames doc) (directMountCheck E content doc) [] = Inr r3 \<and>
       forOf (serviceNames doc) (missingFileCheck E content files appId doc) [] = Inr r4 \<and>
       rs = r1 @ r2 @ r3 @ r4)"
proof (cases "getProp mocked ''services''")
  case (Inl e)
  then show ?thesis by (cases e) (simp add: semanticChecks_def)
next
  case m: (Inr sv)
  show ?thesis
  proof (cases "getProp doc ''services''")
    case (Inl e)
    then show ?thesis using m assms
      by (cases e) (auto simp: semanticChecks_def Object_keys_coalesce bindE_eq_Inr)
  next
    case d: (Inr sv')
    have "semanticChecks E content files appId mocked = Inr rs \<longleftrightarrow>
      (\<exists>r1 r12 r123.
         forOf (serviceNames mocked) (imageCheck E content mocked) [] = Inr r1 \<and>
         forOf (serviceNames mocked) (booleanCheck E content mocked) r1 = Inr r12 \<and>
         forOf (serviceNames doc) (directMountCheck E content doc) r12 = Inr r123 \<and>
         forOf (serviceNames doc) (missingFileCheck E content files appId doc) r123 = Inr rs)"
      using m d assms
      by (simp add: semanticChecks_def Object_keys_coalesce bindE_eq_Inr serviceNames_Inr)
    also have "\<dots> \<longleftrightarrow> (\<exists>r1 r2 r3 r4.
       forOf (serviceNames mocked) (imageCheck E content mocked) [] = Inr r1 \<and>
       forOf (serviceNames mocked) (booleanCheck E content mocked) [] = Inr r2 \<and>
       forOf (serviceNames doc) (directMountCheck E content doc) [] = Inr r3 \<and>
       forOf (serviceNames doc) (missingFileCheck E content files appId doc) [] = Inr r4 \<and>
       rs = r1 @ r2 @ r3 @ r4)"
      by (subst forOf_from [OF pushes_booleanCheck], subst forOf_from [OF pushes_directMountCheck],
          subst forOf_from [OF pushes_missingFileCheck]) auto
    finally show ?thesis using m d by simp
  qed
qed

lemma lint_semantic:
  assumes "YAML_parse E True (mockVariables E content) = Inr mocked" "fst (validate E mocked)"
  shows "lintDockerComposeYml E content files appId = semanticChecks E content files appId mocked"
  using assms by (cases "validate E mocked") (simp add: lintDockerComposeYml_def)

section \<open>The diagnostics of each stage\<close>

lemma zodViolation_id [simp]: "id' (zodViolation E content issue) = ZodIssueCode (issue_code issue)"
  by (simp add: zodViolation_def)

lemma schemaViolation_id [simp]: "id' (schemaViolation E content err) = AjvKeyword (error_keyword err)"
  by (simp add: schemaViolation_def)

lemma invalidYamlSyntax_id [simp]: "id' (invalidYamlSyntax file e) = invalid_yaml_syntax"
  by (simp add: invalidYamlSyntax_def)

lemma invalidSubmissionField_id [simp]: "id' (invalidSubmissionField E submission url) = invalid_submission_field"
  by (simp add: invalidSubmissionField_def)

text \<open>What the app validator returns, by the outcome of its stages.\<close>

lemma lintUmbrelAppYml_cases:
  assumes "lintUmbrelAppYml E content options = Inr rs"
  shows "(\<exists>e. YAML_parse E False content = Inl e \<and> rs = [invalidYamlSyntax ''umbrel-app.yml'' e]) \<or>
    (\<exists>raw issues. YAML_parse E False content = Inr raw \<and> umbrelAppYmlSchema E raw = Inl issues \<and>
       rs = map (zodViolation E content) issues) \<or>
    (\<exists>raw data. YAML_parse E False content = Inr raw \<and> umbrelAppYmlSchema E raw = Inr data \<and>
       (rs = [] \<or> (\<exists>submission url. rs = [invalidSubmissionField E submission url])))"
proof (cases "YAML_parse E False content")
  case (Inl e)
  then show ?thesis using assms by (simp add: lintUmbrelAppYml_def)
next
  case raw: (Inr raw)
  show ?thesis
  proof (cases "umbrelAppYmlSchema E raw")
    case (Inl issues)
    then show ?thesis using assms raw by (simp add: lintUmbrelAppYml_def)
  next
    case (Inr data)
    then show ?thesis using assms raw
      by (auto simp: lintUmbrelAppYml_def bindE_eq_Inr split: option.splits bool.splits if_splits)
  qed
qed

lemma imageVersion_Some:
  "String_match img re_image = Some m \<Longrightarrow> nth_opt (drop 1 m) 1 = imageVersion img"
  by (simp add: imageVersion_def)

lemma imageVersion_None: "String_match img re_image = None \<Longrightarrow> imageVersion img = None"
  by (simp add: imageVersion_def)

text \<open>What the image loop pushes for one service.\<close>

lemma imageCheck_result:
  "imageCheck E content doc service [] = Inr ds \<longleftrightarrow>
     (\<exists>image. serviceMember doc service ''image'' = Inr image \<and>
        (if \<not> truthy image then ds = []
         else \<exists>img. image = Str img \<and>
           (if String_match img re_image = None then ds = [invalidImageName E content service img]
            else if imageVersion img = Some ''latest'' then ds = [invalidImageTag E content service ''latest'']
            else ds = [])))"
proof (cases "serviceMember doc service ''image''")
  case (Inl e)
  then show ?thesis by (simp add: imageCheck_def)
next
  case (Inr image)
  show ?thesis
  proof (cases "truthy image")
    case False
    then show ?thesis using Inr by (auto simp: imageCheck_def)
  next
    case True
    show ?thesis
    proof (cases image)
      case (Str img)
      show ?thesis
      proof (cases "String_match img re_image")
        case None
        then show ?thesis using Inr True Str by (auto simp: imageCheck_def)
      next
        case (Some m)
        then show ?thesis using Inr True Str imageVersion_Some [OF Some]
          by (auto simp: imageCheck_def split: option.splits)
      qed
    qed (use Inr True in \<open>simp_all add: imageCheck_def\<close>)
  qed
qed

lemma imageCheck_push_name:
  assumes "serviceMember doc service ''image'' = Inr (Str img)" "img \<noteq> []"
    "String_match img re_image = None"
  shows "imageCheck E content doc service [] = Inr [invalidImageName E content service img]"
  using assms by (simp add: imageCheck_def)

lemma imageCheck_push_tag:
  assumes "serviceMember doc service ''image'' = Inr (Str img)" "img \<noteq> []"
    "imageVersion img = Some ''latest''"
  shows "imageCheck E content doc service [] = Inr [invalidImageTag E content service ''latest'']"
  using assms by (auto simp: imageCheck_def imageVersion_def split: option.splits)

lemma imageCheck_elem:
  assumes "imageCheck E content doc service [] = Inr ds" "d \<in> set ds"
  shows "\<exists>img. serviceMember doc service ''image'' = Inr (Str img) \<and> img \<noteq> [] \<and>
       (String_match img re_image = None \<and> d = invalidImageName E content service img \<or>
        imageVersion img = Some ''latest'' \<and> d = invalidImageTag E content service ''latest'')"
proof -
  from assms(1) obtain image where i: "serviceMember doc service ''image'' = Inr image"
    and r: "if \<not> truthy image then ds = []
         else \<exists>img. image = Str img \<and>
           (if String_match img re_image = None then ds = [invalidImageName E content service img]
            else if imageVersion img = Some ''latest'' then ds = [invalidImageTag E content service ''latest'']
            else ds = [])"
    unfolding imageCheck_result by blast
  have t: "truthy image" using r assms(2) by (cases "truthy image") auto
  then obtain img where img: "image = Str img"
    "if String_match img re_image = None then ds = [invalidImageName E content service img]
            else if imageVersion img = Some ''latest'' then ds = [invalidImageTag E content service ''latest'']
            else ds = []"
    using r by auto
  have "img \<noteq> []" using t img by simp
  then show ?thesis using i img assms(2) by (auto split: if_splits)
qed

lemma image_loop_member:
  assumes "forOf names (imageCheck E content doc) [] = Inr r"
  shows "d \<in> set r \<longleftrightarrow>
    (\<exists>service\<in>set names. \<exists>img. serviceMember doc service ''image'' = Inr (Str img) \<and> img \<noteq> [] \<and>
       (String_match img re_image = None \<and> d = invalidImageName E content service img \<or>
        imageVersion img = Some ''latest'' \<and> d = invalidImageTag E content service ''latest''))"
proof
  assume "d \<in> set r"
  then obtain service ds where s: "service \<in> set names" "imageCheck E content doc service [] = Inr ds" "d \<in> set ds"
    using forOf_member [OF pushes_imageCheck assms] by blast
  from imageCheck_elem [OF s(2) s(3)] s(1) show "\<exists>service\<in>set names. \<exists>img. serviceMember doc service ''image'' = Inr (Str img) \<and> img \<noteq> [] \<and>
       (String_match img re_image = None \<and> d = invalidImageName E content service img \<or>
        imageVersion img = Some ''latest'' \<and> d = invalidImageTag E content service ''latest'')"
    by blast
next
  assume "\<exists>service\<in>set names. \<exists>img. serviceMember doc service ''image'' = Inr (Str img) \<and> img \<noteq> [] \<and>
       (String_match img re_image = None \<and> d = invalidImageName E content service img \<or>
        imageVersion img = Some ''latest'' \<and> d = invalidImageTag E content service ''latest'')"
  then obtain service img where s: "service \<in> set names" "serviceMember doc service ''image'' = Inr (Str img)"
    "img \<noteq> []" "String_match img re_image = None \<and> d = invalidImageName E content service img \<or>
        imageVersion img = Some ''latest'' \<and> d = invalidImageTag E content service ''latest''"
    by blast
  have "imageCheck E content doc service [] = Inr [d]"
    using s(4) imageCheck_push_name [OF s(2) s(3)] imageCheck_push_tag [OF s(2) s(3)] by auto
  then have "\<exists>x\<in>set names. \<exists>ds. imageCheck E content doc x [] = Inr ds \<and> d \<in> set ds"
    using s(1) by (intro bexI [of _ service] exI [of _ "[d]"]) simp_all
  then show "d \<in> set r"
    using forOf_member [OF pushes_imageCheck assms] by blast
qed

lemma forOf_booleanEntry:
  "forOf entries (booleanEntry E content service label) acc =
     Inr (acc @ map (\<lambda>entry. invalidBooleanValue E content service label (fst entry) (snd entry))
       (filter (\<lambda>entry. typeof (snd entry) = ''boolean'') entries))"
  by (induction entries arbitrary: acc) (auto simp: booleanEntry_def)

lemma propertyEntries_eq:
  "propertyEntries label v = Inr (if truthy v \<and> typeof v = ''object'' then [(label, ownEntries v)] else [])"
  by (cases v) (simp_all add: propertyEntries_def Object_entries_def)

lemma forOf_properties:
  "forOf ps (\<lambda>property. forOf (snd property) (booleanEntry E content service (fst property))) acc =
     Inr (acc @ concat (map (\<lambda>property.
       map (\<lambda>entry. invalidBooleanValue E content service (fst property) (fst entry) (snd entry))
         (filter (\<lambda>entry. typeof (snd entry) = ''boolean'') (snd property))) ps))"
  by (induction ps arbitrary: acc) (simp_all add: forOf_booleanEntry)

lemma exn_unique [simp]: "(e::exn) = e'"
  by (cases e, cases e') simp

lemma getProp_Inl: "getProp v k = Inl e \<longleftrightarrow> nullish v"
  by (auto simp: getProp_def split: option.splits)

lemma serviceMember_Inl:
  "serviceMember doc service name = Inl e \<longleftrightarrow>
     (nullish doc \<or> (\<exists>sv. getProp doc ''services'' = Inr sv \<and> \<not> nullish sv \<and>
         (\<exists>s. getProp sv service = Inr s \<and> nullish s)))"
proof (cases "getProp doc ''services''")
  case (Inl e')
  then have "nullish doc" using getProp_Inl by blast
  then show ?thesis using Inl by (simp add: serviceMember_def)
next
  case (Inr sv)
  then have nd: "\<not> nullish doc" using getProp_Inl [of doc "''services''" TypeError] by auto
  show ?thesis
  proof (cases "nullish sv")
    case True
    then show ?thesis using Inr nd by (simp add: serviceMember_def)
  next
    case False
    then obtain s where s: "getProp sv service = Inr s"
      using getProp_Inl [of sv service TypeError] by (cases "getProp sv service") auto
    have "getProp s name = Inl e \<longleftrightarrow> nullish s" by (rule getProp_Inl)
    then show ?thesis using Inr nd False s by (simp add: serviceMember_def)
  qed
qed

lemma serviceMember_throws:
  "serviceMember doc service name = Inl e \<longleftrightarrow> serviceMember doc service name' = Inl e"
  unfolding serviceMember_Inl ..

text \<open>What the bare-boolean loop pushes for one service.\<close>

lemma booleanCheck_result:
  "booleanCheck E content doc service [] = Inr ds \<longleftrightarrow>
     serviceMember doc service ''environment'' \<noteq> Inl TypeError \<and>
     ds = booleanDiagnostics E content doc service"
proof (cases "serviceMember doc service ''environment''")
  case (Inl e)
  then show ?thesis by (simp add: booleanCheck_def)
next
  case env: (Inr environment)
  obtain labels where lab: "serviceMember doc service ''labels'' = Inr labels"
    using env serviceMember_throws [of doc service "''labels''" TypeError "''environment''"]
    by (cases "serviceMember doc service ''labels''") auto
  obtain extra_hosts where eh: "serviceMember doc service ''extra_hosts'' = Inr extra_hosts"
    using env serviceMember_throws [of doc service "''extra_hosts''" TypeError "''environment''"]
    by (cases "serviceMember doc service ''extra_hosts''") auto
  show ?thesis using env lab eh
    by (auto simp: booleanCheck_def propertyEntries_eq forOf_properties booleanDiagnostics_def
        bareBooleanEntries_def)
qed

lemma list_all2_function: "list_all2 (\<lambda>x y. y = f x) xs ys \<longleftrightarrow> ys = map f xs"
proof (induction xs arbitrary: ys)
  case Nil
  show ?case by auto
next
  case (Cons x xs)
  show ?case by (cases ys) (auto simp: Cons.IH)
qed

lemma boolean_loop_result:
  assumes "forOf names (booleanCheck E content doc) [] = Inr r"
  shows "r = concat (map (booleanDiagnostics E content doc) names)"
proof -
  from assms obtain dss where dss: "list_all2 (\<lambda>s ds. booleanCheck E content doc s [] = Inr ds) names dss"
    "r = concat dss"
    using forOf_Inr_concat [OF pushes_booleanCheck, where xs = names and s = "[]" and r = r] by auto
  have "list_all2 (\<lambda>s ds. ds = booleanDiagnostics E content doc s) names dss"
    using dss(1) by (rule list_all2_mono) (simp add: booleanCheck_result)
  then have "dss = map (booleanDiagnostics E content doc) names"
    by (simp add: list_all2_function)
  then show ?thesis using dss(2) by simp
qed

lemma invalidBooleanValue_fields [simp]:
  "id' (invalidBooleanValue E content service label key value) = invalid_yaml_boolean_value"
  "severity (invalidBooleanValue E content service label key value) = error"
  "propertiesPath (invalidBooleanValue E content service label key value)
     = Some (''services.'' @ service @ ''.'' @ label @ ''.'' @ key)"
  by (simp_all add: invalidBooleanValue_def)

lemma booleanDiagnostics_ids:
  "d \<in> set (booleanDiagnostics E content doc service) \<Longrightarrow>
     id' d = invalid_yaml_boolean_value \<and> severity d = error"
  by (auto simp: booleanDiagnostics_def split: sum.splits)

lemma invalidDirectMount_fields [simp]:
  "id' (invalidDirectMount E content service shown hint) = invalid_app_data_dir_volume_mount"
  "severity (invalidDirectMount E content service shown hint) = warning"
  "propertiesPath (invalidDirectMount E content service shown hint) = Some (''services.'' @ service @ ''.volumes'')"
  by (simp_all add: invalidDirectMount_def)

lemma invalidDirectMount_title:
  \<open>title (invalidDirectMount E content service shown hint) = ''Volume "'' @ shown @ ''"''\<close>
  by (simp add: invalidDirectMount_def)

lemma missingFileOrDirectory_fields [simp]:
  "id' (missingFileOrDirectory E content appId service match shown) = missing_file_or_directory"
  "severity (missingFileOrDirectory E content appId service match shown) = error"
  "propertiesPath (missingFileOrDirectory E content appId service match shown) = Some (''services.'' @ service @ ''.volumes'')"
  by (simp_all add: missingFileOrDirectory_def)

lemma missingFileOrDirectory_title:
  \<open>title (missingFileOrDirectory E content appId service match shown)
     = ''Missing file/directory "'' @ appId @ ''/'' @ match @ ''"''\<close>
  by (simp add: missingFileOrDirectory_def)

text \<open>An object entry with a source and a target, as the two volume loops read it.\<close>

lemma object_entry:
  assumes "map_of kvs ''source'' = Some source" "map_of kvs ''target'' = Some target"
  shows "js_in ''source'' (Obj kvs) = Inr True" "js_in ''target'' (Obj kvs) = Inr True"
    "getProp (Obj kvs) ''source'' = Inr source" "getProp (Obj kvs) ''target'' = Inr target"
  using assms map_of_SomeD [OF assms(1)] map_of_SomeD [OF assms(2)]
  by (force simp: getProp_def)+

lemma directMountVolume_object:
  assumes "map_of kvs ''source'' = Some (Str src)" "map_of kvs ''target'' = Some target"
  shows "directMountVolume E content service (Obj kvs) result =
     (if String_match src re_direct_end \<noteq> None
      then Inr (result @ [invalidDirectMount E content service
         (src @ '':'' @ ToString (Number_toString E) target) (objectMountHint E target)])
      else Inr result)"
  using object_entry [OF assms] by (simp add: directMountVolume_def)

lemma missingFileVolume_object:
  assumes "map_of kvs ''source'' = Some (Str src)" "map_of kvs ''target'' = Some target"
  shows "missingFileVolume E content files appId service (Obj kvs) result =
     (if String_match src re_app_data_dir \<noteq> None
      then (case firstCapture src re_subpath_end of
              None \<Rightarrow> Inr result
            | Some match \<Rightarrow>
                if match = [] then Inr result
                else if appId @ ''/'' @ match \<notin> set files
                then Inr (result @ [missingFileOrDirectory E content appId service match
                   (src @ '':'' @ ToString (Number_toString E) target)])
                else Inr result)
      else Inr result)"
  using object_entry [OF assms] by (simp add: missingFileVolume_def)

text \<open>The way both volume loops read an entry that is not a string.\<close>

lemma object_form_cases:
  assumes "(if typeof volume = ''object''
      then bindE (js_in ''source'' volume) (\<lambda>hasSource.
        if \<not> hasSource then Inr r0
        else bindE (js_in ''target'' volume) (\<lambda>hasTarget.
          if \<not> hasTarget then Inr r0
          else bindE (getProp volume ''source'') (\<lambda>source.
            bindE (getProp volume ''target'') (\<lambda>target.
              (case source of Str src \<Rightarrow> K src target | _ \<Rightarrow> Inl TypeError)))))
      else Inr r0) = Inr ds"
  shows "ds = r0 \<or> (\<exists>src target. getProp volume ''source'' = Inr (Str src) \<and>
     getProp volume ''target'' = Inr target \<and> K src target = Inr ds)"
proof (cases "typeof volume = ''object''")
  case False
  then show ?thesis using assms by simp
next
  case obj: True
  show ?thesis
  proof (cases "js_in ''source'' volume")
    case (Inl e)
    then show ?thesis using assms obj by simp
  next
    case hs: (Inr hasSource)
    show ?thesis
    proof (cases hasSource)
      case False
      then show ?thesis using assms obj hs by simp
    next
      case s: True
      show ?thesis
      proof (cases "js_in ''target'' volume")
        case (Inl e)
        then show ?thesis using assms obj hs s by simp
      next
        case ht: (Inr hasTarget)
        show ?thesis
        proof (cases hasTarget)
          case False
          then show ?thesis using assms obj hs s ht by simp
        next
          case t: True
          show ?thesis
          proof (cases "getProp volume ''source''")
            case (Inl e)
            then show ?thesis using assms obj hs s ht t by simp
          next
            case src: (Inr source)
            show ?thesis
            proof (cases "getProp volume ''target''")
              case (Inl e)
              then show ?thesis using assms obj hs s ht t src by simp
            next
              case tgt: (Inr target)
              show ?thesis
                using assms obj hs s ht t src tgt by (cases source) simp_all
            qed
          qed
        qed
      qed
    qed
  qed
qed

lemma directMountVolume_nonstring:
  assumes "\<And>v. volume \<noteq> Str v"
  shows "directMountVolume E content service volume result =
     (if typeof volume = ''object''
      then bindE (js_in ''source'' volume) (\<lambda>hasSource.
        if \<not> hasSource then Inr result
        else bindE (js_in ''target'' volume) (\<lambda>hasTarget.
          if \<not> hasTarget then Inr result
          else bindE (getProp volume ''source'') (\<lambda>source.
            bindE (getProp volume ''target'') (\<lambda>target.
              (case source of
                 Str src \<Rightarrow>
                   if String_match src re_direct_end \<noteq> None
                   then Inr (result @ [invalidDirectMount E content service
                     (src @ '':'' @ ToString (Number_toString E) target) (objectMountHint E target)])
                   else Inr result
               | _ \<Rightarrow> Inl TypeError)))))
      else Inr result)"
  using assms by (cases volume) (auto simp: directMountVolume_def simp del: js_in.simps)

lemma missingFileVolume_nonstring:
  assumes "\<And>v. volume \<noteq> Str v"
  shows "missingFileVolume E content files appId service volume result =
     (if typeof volume = ''object''
      then bindE (js_in ''source'' volume) (\<lambda>hasSource.
        if \<not> hasSource then Inr result
        else bindE (js_in ''target'' volume) (\<lambda>hasTarget.
          if \<not> hasTarget then Inr result
          else bindE (getProp volume ''source'') (\<lambda>source.
            bindE (getProp volume ''target'') (\<lambda>target.
              (case source of
                 Str src \<Rightarrow>
                   if String_match src re_app_data_dir \<noteq> None
                   then (case firstCapture src re_subpath_end of
                           None \<Rightarrow> Inr result
                         | Some match \<Rightarrow>
                             if match = [] then Inr result
                             else if appId @ ''/'' @ match \<notin> set files
                             then Inr (result @ [missingFileOrDirectory E content appId service match
                               (src @ '':'' @ ToString (Number_toString E) target)])
                             else Inr result)
                   else Inr result
               | _ \<Rightarrow> Inl TypeError)))))
      else Inr result)"
  using assms by (cases volume) (auto simp: missingFileVolume_def simp del: js_in.simps)

text \<open>Every diagnostic of the direct-mount loop body is a direct-mount warning.\<close>

lemma directMountVolume_elem:
  assumes "directMountVolume E content service volume [] = Inr ds" "d \<in> set ds"
  shows "\<exists>shown hint. d = invalidDirectMount E content service shown hint \<and> ds = [d]"
proof (cases "\<exists>v. volume = Str v")
  case True
  then obtain v where "volume = Str v" by blast
  then have "ds = [invalidDirectMount E content service v (stringMountHint v)]"
    using assms by (auto simp: directMountVolume_def split: if_splits)
  then show ?thesis using assms(2) by auto
next
  case False
  then have "\<And>v. volume \<noteq> Str v" by blast
  note cases = object_form_cases [OF assms(1) [unfolded directMountVolume_nonstring [OF this]]]
  have "ds \<noteq> []" using assms(2) by auto
  with cases obtain src target where "(if String_match src re_direct_end \<noteq> None
      then Inr ([] @ [invalidDirectMount E content service
         (src @ '':'' @ ToString (Number_toString E) target) (objectMountHint E target)])
      else Inr []) = (Inr ds :: exn + LintingResult list)"
    by blast
  then have "ds = [invalidDirectMount E content service
      (src @ '':'' @ ToString (Number_toString E) target) (objectMountHint E target)]"
    using assms(2) by (auto split: if_splits)
  then show ?thesis using assms(2) by auto
qed

text \<open>Every diagnostic of the existence loop body names a path that is not in the file list.\<close>

lemma missingFileVolume_elem:
  assumes "missingFileVolume E content files appId service volume [] = Inr ds" "d \<in> set ds"
  shows "\<exists>match shown. d = missingFileOrDirectory E content appId service match shown \<and>
     match \<noteq> [] \<and> appId @ ''/'' @ match \<notin> set files \<and> ds = [d]"
proof (cases "\<exists>v. volume = Str v")
  case True
  then obtain v where "volume = Str v" by blast
  then obtain match where "ds = [missingFileOrDirectory E content appId service match v]"
    "match \<noteq> []" "appId @ ''/'' @ match \<notin> set files"
    using assms by (auto simp: missingFileVolume_def split: if_splits option.splits)
  then show ?thesis using assms(2) by auto
next
  case False
  then have "\<And>v. volume \<noteq> Str v" by blast
  note cases = object_form_cases [OF assms(1) [unfolded missingFileVolume_nonstring [OF this]]]
  have "ds \<noteq> []" using assms(2) by auto
  with cases obtain src target where "(if String_match src re_app_data_dir \<noteq> None
      then (case firstCapture src re_subpath_end of
              None \<Rightarrow> Inr []
            | Some match \<Rightarrow>
                if match = [] then Inr []
                else if appId @ ''/'' @ match \<notin> set files
                then Inr ([] @ [missingFileOrDirectory E content appId service match
                   (src @ '':'' @ ToString (Number_toString E) target)])
                else Inr [])
      else Inr []) = (Inr ds :: exn + LintingResult list)"
    by blast
  then obtain match shown where "ds = [missingFileOrDirectory E content appId service match shown]"
    "match \<noteq> []" "appId @ ''/'' @ match \<notin> set files"
    using assms(2) by (auto split: if_splits option.splits)
  then show ?thesis using assms(2) by auto
qed

lemma isArray_iff: "truthy v \<and> isArray v \<longleftrightarrow> (\<exists>xs. v = Arr xs)"
  by (cases v) simp_all

lemma directMountCheck_result:
  "directMountCheck E content doc service [] = Inr ds \<longleftrightarrow>
     (\<exists>volumes. serviceVolumes doc service = Inr volumes \<and>
        (case volumes of
           Arr vols \<Rightarrow> forOf vols (directMountVolume E content service) [] = Inr ds
         | _ \<Rightarrow> ds = []))"
proof (cases "serviceVolumes doc service")
  case (Inl e)
  then show ?thesis by (simp add: directMountCheck_def)
next
  case (Inr volumes)
  then show ?thesis by (cases volumes) (auto simp: directMountCheck_def)
qed

lemma missingFileCheck_result:
  "missingFileCheck E content files appId doc service [] = Inr ds \<longleftrightarrow>
     (\<exists>volumes. serviceVolumes doc service = Inr volumes \<and>
        (case volumes of
           Arr vols \<Rightarrow> forOf vols (missingFileVolume E content files appId service) [] = Inr ds
         | _ \<Rightarrow> ds = []))"
proof (cases "serviceVolumes doc service")
  case (Inl e)
  then show ?thesis by (simp add: missingFileCheck_def)
next
  case (Inr volumes)
  then show ?thesis by (cases volumes) (auto simp: missingFileCheck_def)
qed

text \<open>The diagnostics of the two volume loops: what the body pushes for an entry of a service.\<close>

lemma mount_loop_member:
  assumes "forOf names (directMountCheck E content doc) [] = Inr r"
  shows "d \<in> set r \<longleftrightarrow>
    (\<exists>service\<in>set names. \<exists>vols. serviceVolumes doc service = Inr (Arr vols) \<and>
       (\<exists>volume\<in>set vols. \<exists>ds. directMountVolume E content service volume [] = Inr ds \<and> d \<in> set ds))"
proof
  assume "d \<in> set r"
  then obtain service ds where s: "service \<in> set names"
    "directMountCheck E content doc service [] = Inr ds" "d \<in> set ds"
    using forOf_member [OF pushes_directMountCheck assms] by blast
  from s(2) obtain volumes where v: "serviceVolumes doc service = Inr volumes"
    "case volumes of Arr vols \<Rightarrow> forOf vols (directMountVolume E content service) [] = Inr ds | _ \<Rightarrow> ds = []"
    unfolding directMountCheck_result by blast
  from v(2) s(3) obtain vols where vols: "volumes = Arr vols"
    "forOf vols (directMountVolume E content service) [] = Inr ds"
    by (cases volumes) auto
  from forOf_member [OF pushes_directMountVolume vols(2)] s(3)
  have "\<exists>volume\<in>set vols. \<exists>ds'. directMountVolume E content service volume [] = Inr ds' \<and> d \<in> set ds'"
    by blast
  then show "\<exists>service\<in>set names. \<exists>vols. serviceVolumes doc service = Inr (Arr vols) \<and>
       (\<exists>volume\<in>set vols. \<exists>ds. directMountVolume E content service volume [] = Inr ds \<and> d \<in> set ds)"
    using s(1) v(1) vols(1) by blast
next
  assume "\<exists>service\<in>set names. \<exists>vols. serviceVolumes doc service = Inr (Arr vols) \<and>
       (\<exists>volume\<in>set vols. \<exists>ds. directMountVolume E content service volume [] = Inr ds \<and> d \<in> set ds)"
  then obtain service vols where s: "service \<in> set names" "serviceVolumes doc service = Inr (Arr vols)"
    "\<exists>volume\<in>set vols. \<exists>ds. directMountVolume E content service volume [] = Inr ds \<and> d \<in> set ds"
    by blast
  obtain ds where ds: "directMountCheck E content doc service [] = Inr ds"
    using forOf_each [OF pushes_directMountCheck assms s(1)] by blast
  then have "forOf vols (directMountVolume E content service) [] = Inr ds"
    unfolding directMountCheck_result using s(2) by simp
  from forOf_member [OF pushes_directMountVolume this] s(3) have "d \<in> set ds" by blast
  then show "d \<in> set r"
    using forOf_member [OF pushes_directMountCheck assms] s(1) ds by blast
qed

lemma missing_loop_member:
  assumes "forOf names (missingFileCheck E content files appId doc) [] = Inr r"
  shows "d \<in> set r \<longleftrightarrow>
    (\<exists>service\<in>set names. \<exists>vols. serviceVolumes doc service = Inr (Arr vols) \<and>
       (\<exists>volume\<in>set vols. \<exists>ds. missingFileVolume E content files appId service volume [] = Inr ds \<and> d \<in> set ds))"
proof
  assume "d \<in> set r"
  then obtain service ds where s: "service \<in> set names"
    "missingFileCheck E content files appId doc service [] = Inr ds" "d \<in> set ds"
    using forOf_member [OF pushes_missingFileCheck assms] by blast
  from s(2) obtain volumes where v: "serviceVolumes doc service = Inr volumes"
    "case volumes of Arr vols \<Rightarrow> forOf vols (missingFileVolume E content files appId service) [] = Inr ds | _ \<Rightarrow> ds = []"
    unfolding missingFileCheck_result by blast
  from v(2) s(3) obtain vols where vols: "volumes = Arr vols"
    "forOf vols (missingFileVolume E content files appId service) [] = Inr ds"
    by (cases volumes) auto
  from forOf_member [OF pushes_missingFileVolume vols(2)] s(3)
  have "\<exists>volume\<in>set vols. \<exists>ds'. missingFileVolume E content files appId service volume [] = Inr ds' \<and> d \<in> set ds'"
    by blast
  then show "\<exists>service\<in>set names. \<exists>vols. serviceVolumes doc service = Inr (Arr vols) \<and>
       (\<exists>volume\<in>set vols. \<exists>ds. missingFileVolume E content files appId service volume [] = Inr ds \<and> d \<in> set ds)"
    using s(1) v(1) vols(1) by blast
next
  assume "\<exists>service\<in>set names. \<exists>vols. serviceVolumes doc service = Inr (Arr vols) \<and>
       (\<exists>volume\<in>set vols. \<exists>ds. missingFileVolume E content files appId service volume [] = Inr ds \<and> d \<in> set ds)"
  then obtain service vols where s: "service \<in> set names" "serviceVolumes doc service = Inr (Arr vols)"
    "\<exists>volume\<in>set vols. \<exists>ds. missingFileVolume E content files appId service volume [] = Inr ds \<and> d \<in> set ds"
    by blast
  obtain ds where ds: "missingFileCheck E content files appId doc service [] = Inr ds"
    using forOf_each [OF pushes_missingFileCheck assms s(1)] by blast
  then have "forOf vols (missingFileVolume E content files appId service) [] = Inr ds"
    unfolding missingFileCheck_result using s(2) by simp
  from forOf_member [OF pushes_missingFileVolume this] s(3) have "d \<in> set ds" by blast
  then show "d \<in> set r"
    using forOf_member [OF pushes_missingFileCheck assms] s(1) ds by blast
qed

text \<open>The result of the compose validator when both texts parse and the schema holds.\<close>

lemma compose_result:
  assumes "YAML_parse E True (mockVariables E content) = Inr mocked" "fst (validate E mocked)"
    "YAML_parse E True content = Inr doc" "lintDockerComposeYml E content files appId = Inr rs"
  obtains r1 r2 r3 r4 where
    "forOf (serviceNames mocked) (imageCheck E content mocked) [] = Inr r1"
    "forOf (serviceNames mocked) (booleanCheck E content mocked) [] = Inr r2"
    "forOf (serviceNames doc) (directMountCheck E content doc) [] = Inr r3"
    "forOf (serviceNames doc) (missingFileCheck E content files appId doc) [] = Inr r4"
    "rs = r1 @ r2 @ r3 @ r4"
proof -
  have "semanticChecks E content files appId mocked = Inr rs"
    using lint_semantic [OF assms(1) assms(2)] assms(4) by simp
  then show ?thesis
    using semanticChecks_Inr [OF assms(3), of files appId mocked rs] that by blast
qed

lemma invalidImageName_fields [simp]:
  "id' (invalidImageName E content service img) = invalid_docker_image_name"
  "severity (invalidImageName E content service img) = error"
  "propertiesPath (invalidImageName E content service img) = Some (''services.'' @ service @ ''.image'')"
  by (simp_all add: invalidImageName_def)

lemma invalidImageTag_fields [simp]:
  "id' (invalidImageTag E content service version) = invalid_docker_image_name"
  "severity (invalidImageTag E content service version) = warning"
  "propertiesPath (invalidImageTag E content service version) = Some (''services.'' @ service @ ''.image'')"
  by (simp_all add: invalidImageTag_def)

text \<open>The ids of the diagnostics of each loop.\<close>

lemma image_loop_ids:
  assumes "forOf names (imageCheck E content doc) [] = Inr r" "d \<in> set r"
  shows "id' d = invalid_docker_image_name"
  using image_loop_member [OF assms(1), of d] assms(2) by auto

lemma boolean_loop_ids:
  assumes "forOf names (booleanCheck E content doc) [] = Inr r" "d \<in> set r"
  shows "id' d = invalid_yaml_boolean_value \<and> severity d = error"
  using boolean_loop_result [OF assms(1)] assms(2) booleanDiagnostics_ids by fastforce

lemma mount_loop_ids:
  assumes "forOf names (directMountCheck E content doc) [] = Inr r" "d \<in> set r"
  shows "id' d = invalid_app_data_dir_volume_mount \<and> severity d = warning"
proof -
  from mount_loop_member [OF assms(1), of d] assms(2) obtain service volume ds where
    "directMountVolume E content service volume [] = Inr ds" "d \<in> set ds"
    by blast
  from directMountVolume_elem [OF this] show ?thesis by auto
qed

lemma missing_loop_ids:
  assumes "forOf names (missingFileCheck E content files appId doc) [] = Inr r" "d \<in> set r"
  shows "id' d = missing_file_or_directory \<and> severity d = error"
proof -
  from missing_loop_member [OF assms(1), of d] assms(2) obtain service volume ds where
    "missingFileVolume E content files appId service volume [] = Inr ds" "d \<in> set ds"
    by blast
  from missingFileVolume_elem [OF this] show ?thesis by auto
qed

subsection \<open>Single volume entries\<close>

text \<open>The two volume loops on the entries the claims speak of.\<close>

lemma firstCapture_Some:
  "String_match s re = Some [m0, sub] \<Longrightarrow> firstCapture s re = Some sub"
  by (simp add: firstCapture_def nth_opt_def)

lemma directMountVolume_string_root:
  assumes "placeholder ph" "mnt = ph \<or> mnt = ph @ ''/''"
  shows "directMountVolume E content service (Str (mnt @ '':'' @ target)) result =
     Inr (result @ [invalidDirectMount E content service (mnt @ '':'' @ target)
        (stringMountHint (mnt @ '':'' @ target))])"
proof -
  have "String_match (mnt @ '':'' @ target) re_direct_colon \<noteq> None"
    using assms(2) direct_colon_match [OF assms(1), of target] by auto
  then show ?thesis by (simp add: directMountVolume_def)
qed

lemma directMountVolume_object_root:
  assumes "placeholder ph" "mnt = ph \<or> mnt = ph @ ''/''"
    "map_of kvs ''source'' = Some (Str mnt)" "map_of kvs ''target'' = Some t"
  shows "directMountVolume E content service (Obj kvs) result =
     Inr (result @ [invalidDirectMount E content service
        (mnt @ '':'' @ ToString (Number_toString E) t) (objectMountHint E t)])"
proof -
  have "String_match mnt re_direct_end \<noteq> None"
    using assms(2) direct_end_match [OF assms(1)] by auto
  then show ?thesis using directMountVolume_object [OF assms(3) assms(4)] by simp
qed

lemma directMountVolume_string_subpath:
  assumes "placeholder ph" "sub \<noteq> []" "hd sub \<noteq> CHR '':''" "CHR ''$'' \<notin> set (sub @ rest)"
  shows "directMountVolume E content service (Str (ph @ ''/'' @ sub @ rest)) result = Inr result"
proof -
  obtain c cs where sub: "sub = c # cs" using assms(2) by (cases sub) auto
  have "String_match (ph @ ''/'' @ c # (cs @ rest)) re_direct_colon = None"
    using assms sub by (intro direct_colon_no_match) auto
  then show ?thesis using sub by (simp add: directMountVolume_def)
qed

lemma directMountVolume_object_subpath:
  assumes "placeholder ph" "sub \<noteq> []" "CHR ''$'' \<notin> set sub"
    "map_of kvs ''source'' = Some (Str (ph @ ''/'' @ sub))" "map_of kvs ''target'' = Some t"
  shows "directMountVolume E content service (Obj kvs) result = Inr result"
  using directMountVolume_object [OF assms(4) assms(5)]
    direct_end_no_match [OF assms(1) assms(2) assms(3)] by simp

lemma missingFileVolume_string_subpath:
  assumes "placeholder ph" "sub \<noteq> []" "\<forall>c\<in>set sub. \<not> LineTerminator c" "CHR '':'' \<notin> set sub"
  shows "missingFileVolume E content files appId service (Str (ph @ ''/'' @ sub @ '':'' @ target)) result =
     (if appId @ ''/'' @ sub \<notin> set files
      then Inr (result @ [missingFileOrDirectory E content appId service sub (ph @ ''/'' @ sub @ '':'' @ target)])
      else Inr result)"
proof -
  have "noLT sub" using assms(3) by (simp add: noLT_def)
  from subpath_colon_match [OF assms(1) this assms(4), of target]
  have "firstCapture (ph @ ''/'' @ sub @ '':'' @ target) re_subpath_colon = Some sub"
    by (auto simp: firstCapture_Some)
  moreover have "String_match (ph @ ''/'' @ sub @ '':'' @ target) re_app_data_dir \<noteq> None"
    by (rule app_data_dir_match [OF assms(1)])
  ultimately show ?thesis using assms(2) by (simp add: missingFileVolume_def)
qed

lemma missingFileVolume_object_subpath:
  assumes "placeholder ph" "sub \<noteq> []" "\<forall>c\<in>set sub. \<not> LineTerminator c"
    "map_of kvs ''source'' = Some (Str (ph @ ''/'' @ sub))" "map_of kvs ''target'' = Some t"
  shows "missingFileVolume E content files appId service (Obj kvs) result =
     (if appId @ ''/'' @ sub \<notin> set files
      then Inr (result @ [missingFileOrDirectory E content appId service sub
         ((ph @ ''/'' @ sub) @ '':'' @ ToString (Number_toString E) t)])
      else Inr result)"
proof -
  have "noLT sub" using assms(3) by (simp add: noLT_def)
  from subpath_end_match [OF assms(1) this]
  have "firstCapture (ph @ ''/'' @ sub) re_subpath_end = Some sub"
    by (auto simp: firstCapture_Some)
  moreover have "String_match (ph @ ''/'' @ sub) re_app_data_dir \<noteq> None"
    by (rule app_data_dir_match [OF assms(1)])
  ultimately show ?thesis
    using assms(2) missingFileVolume_object [OF assms(4) assms(5)] by simp
qed

lemma missingFileVolume_string_root:
  assumes "placeholder ph" "mnt = ph \<or> mnt = ph @ ''/''"
  shows "missingFileVolume E content files appId service (Str (mnt @ '':'' @ target)) result = Inr result"
proof -
  have "firstCapture (mnt @ '':'' @ target) re_subpath_colon = Some []"
    using assms(2)
  proof
    assume "mnt = ph"
    then show ?thesis using subpath_colon_root [OF assms(1), of target] by (auto simp: firstCapture_Some)
  next
    assume "mnt = ph @ ''/''"
    then show ?thesis using subpath_colon_match [OF assms(1), of "[]" target]
      by (auto simp: firstCapture_Some)
  qed
  then show ?thesis by (simp add: missingFileVolume_def)
qed

lemma missingFileVolume_object_root:
  assumes "placeholder ph" "mnt = ph \<or> mnt = ph @ ''/''"
    "map_of kvs ''source'' = Some (Str mnt)" "map_of kvs ''target'' = Some t"
  shows "missingFileVolume E content files appId service (Obj kvs) result = Inr result"
proof -
  have "firstCapture mnt re_subpath_end = Some []"
    using assms(2)
  proof
    assume "mnt = ph"
    then show ?thesis using subpath_end_root [OF assms(1)] by (auto simp: firstCapture_Some)
  next
    assume "mnt = ph @ ''/''"
    then show ?thesis using subpath_end_match [OF assms(1), of "[]"]
      by (auto simp: firstCapture_Some)
  qed
  then show ?thesis using missingFileVolume_object [OF assms(3) assms(4)] by simp
qed

lemma directMountVolume_single:
  "(\<exists>ds. directMountVolume E content service volume [] = Inr ds \<and> d \<in> set ds) \<longleftrightarrow>
   directMountVolume E content service volume [] = Inr [d]"
proof
  assume "\<exists>ds. directMountVolume E content service volume [] = Inr ds \<and> d \<in> set ds"
  then obtain ds where ds: "directMountVolume E content service volume [] = Inr ds" "d \<in> set ds"
    by blast
  from directMountVolume_elem [OF ds] have "ds = [d]" by blast
  then show "directMountVolume E content service volume [] = Inr [d]" using ds(1) by simp
next
  assume "directMountVolume E content service volume [] = Inr [d]"
  then have "directMountVolume E content service volume [] = Inr [d] \<and> d \<in> set [d]" by simp
  then show "\<exists>ds. directMountVolume E content service volume [] = Inr ds \<and> d \<in> set ds" by (rule exI)
qed

lemma missingFileVolume_single:
  "(\<exists>ds. missingFileVolume E content files appId service volume [] = Inr ds \<and> d \<in> set ds) \<longleftrightarrow>
   missingFileVolume E content files appId service volume [] = Inr [d]"
proof
  assume "\<exists>ds. missingFileVolume E content files appId service volume [] = Inr ds \<and> d \<in> set ds"
  then obtain ds where ds: "missingFileVolume E content files appId service volume [] = Inr ds" "d \<in> set ds"
    by blast
  from missingFileVolume_elem [OF ds] have "ds = [d]" by blast
  then show "missingFileVolume E content files appId service volume [] = Inr [d]" using ds(1) by simp
next
  assume "missingFileVolume E content files appId service volume [] = Inr [d]"
  then have "missingFileVolume E content files appId service volume [] = Inr [d] \<and> d \<in> set [d]" by simp
  then show "\<exists>ds. missingFileVolume E content files appId service volume [] = Inr ds \<and> d \<in> set ds" by (rule exI)
qed

text \<open>Where a diagnostic of the result comes from, by its id.\<close>

lemma compose_mount_origin:
  assumes "YAML_parse E True (mockVariables E content) = Inr mocked" "fst (validate E mocked)"
    "YAML_parse E True content = Inr doc" "lintDockerComposeYml E content files appId = Inr rs"
  shows "d \<in> set rs \<and> id' d = invalid_app_data_dir_volume_mount \<longleftrightarrow>
    (\<exists>service\<in>set (serviceNames doc). \<exists>vols. serviceVolumes doc service = Inr (Arr vols) \<and>
       (\<exists>volume\<in>set vols. directMountVolume E content service volume [] = Inr [d]))"
proof -
  from compose_result [OF assms] obtain r1 r2 r3 r4 where r:
    "forOf (serviceNames mocked) (imageCheck E content mocked) [] = Inr r1"
    "forOf (serviceNames mocked) (booleanCheck E content mocked) [] = Inr r2"
    "forOf (serviceNames doc) (directMountCheck E content doc) [] = Inr r3"
    "forOf (serviceNames doc) (missingFileCheck E content files appId doc) [] = Inr r4"
    "rs = r1 @ r2 @ r3 @ r4"
    by blast
  have "d \<in> set rs \<and> id' d = invalid_app_data_dir_volume_mount \<longleftrightarrow> d \<in> set r3"
    using r(5) image_loop_ids [OF r(1), of d] boolean_loop_ids [OF r(2), of d]
      mount_loop_ids [OF r(3), of d] missing_loop_ids [OF r(4), of d]
    by auto
  also have "\<dots> \<longleftrightarrow> (\<exists>service\<in>set (serviceNames doc). \<exists>vols. serviceVolumes doc service = Inr (Arr vols) \<and>
       (\<exists>volume\<in>set vols. directMountVolume E content service volume [] = Inr [d]))"
    unfolding mount_loop_member [OF r(3)] directMountVolume_single ..
  finally show ?thesis .
qed

lemma compose_missing_origin:
  assumes "YAML_parse E True (mockVariables E content) = Inr mocked" "fst (validate E mocked)"
    "YAML_parse E True content = Inr doc" "lintDockerComposeYml E content files appId = Inr rs"
  shows "d \<in> set rs \<and> id' d = missing_file_or_directory \<longleftrightarrow>
    (\<exists>service\<in>set (serviceNames doc). \<exists>vols. serviceVolumes doc service = Inr (Arr vols) \<and>
       (\<exists>volume\<in>set vols. missingFileVolume E content files appId service volume [] = Inr [d]))"
proof -
  from compose_result [OF assms] obtain r1 r2 r3 r4 where r:
    "forOf (serviceNames mocked) (imageCheck E content mocked) [] = Inr r1"
    "forOf (serviceNames mocked) (booleanCheck E content mocked) [] = Inr r2"
    "forOf (serviceNames doc) (directMountCheck E content doc) [] = Inr r3"
    "forOf (serviceNames doc) (missingFileCheck E content files appId doc) [] = Inr r4"
    "rs = r1 @ r2 @ r3 @ r4"
    by blast
  have "d \<in> set rs \<and> id' d = missing_file_or_directory \<longleftrightarrow> d \<in> set r4"
    using r(5) image_loop_ids [OF r(1), of d] boolean_loop_ids [OF r(2), of d]
      mount_loop_ids [OF r(3), of d] missing_loop_ids [OF r(4), of d]
    by auto
  also have "\<dots> \<longleftrightarrow> (\<exists>service\<in>set (serviceNames doc). \<exists>vols. serviceVolumes doc service = Inr (Arr vols) \<and>
       (\<exists>volume\<in>set vols. missingFileVolume E content files appId service volume [] = Inr [d]))"
    unfolding missing_loop_member [OF r(4)] missingFileVolume_single ..
  finally show ?thesis .
qed

lemma missing_title_names_path:
  assumes "YAML_parse E True (mockVariables E content) = Inr mocked" "fst (validate E mocked)"
    "YAML_parse E True content = Inr doc" "lintDockerComposeYml E content files appId = Inr rs"
    "d \<in> set rs" "id' d = missing_file_or_directory"
  shows "\<exists>match. match \<noteq> [] \<and> appId @ ''/'' @ match \<notin> set files \<and>
     title d = title (missingFileOrDirectory E content appId service match shown)"
proof -
  from compose_missing_origin [OF assms(1-4), of d] assms(5) assms(6)
  obtain service' volume where "missingFileVolume E content files appId service' volume [] = Inr [d]"
    by blast
  from missingFileVolume_elem [OF this, of d] obtain match shown' where
    m: "d = missingFileOrDirectory E content appId service' match shown'" "match \<noteq> []"
      "appId @ ''/'' @ match \<notin> set files"
    by auto
  have "title d = title (missingFileOrDirectory E content appId service match shown)"
    unfolding m(1) missingFileOrDirectory_title ..
  then show ?thesis using m(2) m(3) by blast
qed

lemma missing_title_inject:
  "title (missingFileOrDirectory E content appId service match shown)
     = title (missingFileOrDirectory E' content' appId service' sub shown') \<longleftrightarrow> match = sub"
  unfolding missingFileOrDirectory_title by simp

lemma compose_mount_member:
  assumes "YAML_parse E True (mockVariables E content) = Inr mocked" "fst (validate E mocked)"
    "YAML_parse E True content = Inr doc" "lintDockerComposeYml E content files appId = Inr rs"
    "service \<in> set (serviceNames doc)" "serviceVolumes doc service = Inr (Arr volumes)"
    "volume \<in> set volumes" "directMountVolume E content service volume [] = Inr [d]"
  shows "d \<in> set rs"
proof -
  have "\<exists>service\<in>set (serviceNames doc). \<exists>vols. serviceVolumes doc service = Inr (Arr vols) \<and>
       (\<exists>volume\<in>set vols. directMountVolume E content service volume [] = Inr [d])"
    using assms(5-8) by blast
  then show ?thesis using compose_mount_origin [OF assms(1-4), of d] by blast
qed

lemma compose_missing_member:
  assumes "YAML_parse E True (mockVariables E content) = Inr mocked" "fst (validate E mocked)"
    "YAML_parse E True content = Inr doc" "lintDockerComposeYml E content files appId = Inr rs"
    "service \<in> set (serviceNames doc)" "serviceVolumes doc service = Inr (Arr volumes)"
    "volume \<in> set volumes" "missingFileVolume E content files appId service volume [] = Inr [d]"
  shows "d \<in> set rs"
proof -
  have "\<exists>service\<in>set (serviceNames doc). \<exists>vols. serviceVolumes doc service = Inr (Arr vols) \<and>
       (\<exists>volume\<in>set vols. missingFileVolume E content files appId service volume [] = Inr [d])"
    using assms(5-8) by blast
  then show ?thesis using compose_missing_origin [OF assms(1-4), of d] by blast
qed

text \<open>Severities.\<close>

lemma error_severities [simp]:
  "severity (invalidYamlSyntax file e) = error"
  "severity (zodViolation E content issue) = error"
  "severity (schemaViolation E content err) = error"
  "severity (invalidSubmissionField E submission url) = error"
  by (simp_all add: invalidYamlSyntax_def zodViolation_def schemaViolation_def invalidSubmissionField_def)

text \<open>What the compose validator returns, by the outcome of its stages.\<close>

lemma lintDockerComposeYml_cases:
  assumes "lintDockerComposeYml E content files appId = Inr rs"
  obtains (unparsed) e where "YAML_parse E True (mockVariables E content) = Inl e"
      "rs = [invalidYamlSyntax ''docker-compose.yml'' e]"
  | (schema) mocked where "YAML_parse E True (mockVariables E content) = Inr mocked"
      "\<not> fst (validate E mocked)"
      "rs = map (schemaViolation E content) (case snd (validate E mocked) of None \<Rightarrow> [] | Some es \<Rightarrow> es)"
  | (reparse) mocked e where "YAML_parse E True (mockVariables E content) = Inr mocked"
      "fst (validate E mocked)" "YAML_parse E True content = Inl e"
      "rs = [invalidYamlSyntax ''docker-compose.yml'' e]"
  | (semantic) mocked doc where "YAML_parse E True (mockVariables E content) = Inr mocked"
      "fst (validate E mocked)" "YAML_parse E True content = Inr doc"
proof (cases "YAML_parse E True (mockVariables E content)")
  case (Inl e)
  then have "rs = [invalidYamlSyntax ''docker-compose.yml'' e]"
    using assms by (simp add: lintDockerComposeYml_def)
  with Inl show ?thesis by (rule unparsed)
next
  case mocked: (Inr mocked)
  show ?thesis
  proof (cases "fst (validate E mocked)")
    case False
    then have "rs = map (schemaViolation E content) (case snd (validate E mocked) of None \<Rightarrow> [] | Some es \<Rightarrow> es)"
      using assms mocked by (cases "validate E mocked") (auto simp: lintDockerComposeYml_def)
    with mocked False show ?thesis by (rule schema)
  next
    case True
    have sem: "semanticChecks E content files appId mocked = Inr rs"
      using lint_semantic [OF mocked True] assms by simp
    show ?thesis
    proof (cases "YAML_parse E True content")
      case (Inl e)
      then have "rs = [invalidYamlSyntax ''docker-compose.yml'' e]"
        using sem by (auto simp: semanticChecks_def bindE_eq_Inr)
      with mocked True Inl show ?thesis by (rule reparse)
    next
      case (Inr doc)
      with mocked True show ?thesis by (rule semantic)
    qed
  qed
qed

lemma compose_severity:
  assumes "lintDockerComposeYml E content files appId = Inr rs" "d \<in> set rs"
  shows "(id' d = invalid_app_data_dir_volume_mount \<longrightarrow> severity d = warning) \<and>
    (id' d = invalid_docker_image_name \<longrightarrow>
       (\<exists>mocked service img. YAML_parse E True (mockVariables E content) = Inr mocked \<and>
          service \<in> set (serviceNames mocked) \<and> serviceMember mocked service ''image'' = Inr (Str img) \<and>
          (String_match img re_image = None \<and> d = invalidImageName E content service img \<and>
             severity d = error \<or>
           imageVersion img = Some ''latest'' \<and> d = invalidImageTag E content service ''latest'' \<and>
             severity d = warning))) \<and>
    (id' d \<noteq> invalid_app_data_dir_volume_mount \<and> id' d \<noteq> invalid_docker_image_name \<longrightarrow>
       severity d = error) \<and>
    severity d \<noteq> info"
  using assms(1)
proof (cases rule: lintDockerComposeYml_cases)
  case (unparsed e)
  then show ?thesis using assms(2) by simp
next
  case (schema mocked)
  then show ?thesis using assms(2) by auto
next
  case (reparse mocked e)
  then show ?thesis using assms(2) by simp
next
  case (semantic mocked doc)
  from compose_result [OF semantic assms(1)] obtain r1 r2 r3 r4 where r:
    "forOf (serviceNames mocked) (imageCheck E content mocked) [] = Inr r1"
    "forOf (serviceNames mocked) (booleanCheck E content mocked) [] = Inr r2"
    "forOf (serviceNames doc) (directMountCheck E content doc) [] = Inr r3"
    "forOf (serviceNames doc) (missingFileCheck E content files appId doc) [] = Inr r4"
    "rs = r1 @ r2 @ r3 @ r4"
    by blast
  from assms(2) r(5) consider "d \<in> set r1" | "d \<in> set r2" | "d \<in> set r3" | "d \<in> set r4"
    by auto
  then show ?thesis
  proof cases
    case 1
    from image_loop_member [OF r(1), of d] 1 obtain service img where
      i: "service \<in> set (serviceNames mocked)" "serviceMember mocked service ''image'' = Inr (Str img)"
        "String_match img re_image = None \<and> d = invalidImageName E content service img \<or>
         imageVersion img = Some ''latest'' \<and> d = invalidImageTag E content service ''latest''"
      by blast
    have id: "id' d = invalid_docker_image_name" by (rule image_loop_ids [OF r(1) 1])
    from i(3) have sev: "String_match img re_image = None \<and> d = invalidImageName E content service img \<and>
             severity d = error \<or>
           imageVersion img = Some ''latest'' \<and> d = invalidImageTag E content service ''latest'' \<and>
             severity d = warning"
      by auto
    then have "severity d \<noteq> info" by auto
    moreover have "\<exists>mocked service img. YAML_parse E True (mockVariables E content) = Inr mocked \<and>
          service \<in> set (serviceNames mocked) \<and> serviceMember mocked service ''image'' = Inr (Str img) \<and>
          (String_match img re_image = None \<and> d = invalidImageName E content service img \<and>
             severity d = error \<or>
           imageVersion img = Some ''latest'' \<and> d = invalidImageTag E content service ''latest'' \<and>
             severity d = warning)"
      using semantic(1) i(1) i(2) sev by blast
    ultimately show ?thesis using id by simp
  next
    case 2
    from boolean_loop_ids [OF r(2) 2] show ?thesis by simp
  next
    case 3
    from mount_loop_ids [OF r(3) 3] show ?thesis by simp
  next
    case 4
    from missing_loop_ids [OF r(4) 4] show ?thesis by simp
  qed
qed

text \<open>What the two loops push for an entry, in terms of its text.\<close>

lemma directMountVolume_string:
  "directMountVolume E content service (Str v) result =
     (if directMountText v
      then Inr (result @ [invalidDirectMount E content service v (stringMountHint v)])
      else Inr result)"
  unfolding directMountVolume_def direct_colon_iff by simp

lemma directMountVolume_source:
  assumes "map_of kvs ''source'' = Some (Str src)" "map_of kvs ''target'' = Some t"
  shows "directMountVolume E content service (Obj kvs) result =
     (if directMountSource src
      then Inr (result @ [invalidDirectMount E content service
         (src @ '':'' @ ToString (Number_toString E) t) (objectMountHint E t)])
      else Inr result)"
  unfolding directMountVolume_object [OF assms] direct_end_iff ..

lemma volume_without_target:
  assumes "''target'' \<notin> fst ` set kvs"
  shows "directMountVolume E content service (Obj kvs) result = Inr result"
    and "missingFileVolume E content files appId service (Obj kvs) result = Inr result"
  using assms by (simp_all add: directMountVolume_def missingFileVolume_def)

lemma directMountSource_text:
  assumes "directMountSource src"
  shows "directMountText (src @ '':'' @ rest)"
proof -
  from assms obtain p pre where p: "p \<in> set placeholderForms" "src = pre @ p \<or> src = pre @ p @ ''/''"
    unfolding directMountSource_def endsWith_iff by blast
  from p(2) have "(\<exists>a b. src @ '':'' @ rest = a @ (p @ '':'') @ b) \<or> (\<exists>a b. src @ '':'' @ rest = a @ (p @ ''/:'') @ b)"
  proof
    assume "src = pre @ p"
    then have "src @ '':'' @ rest = pre @ (p @ '':'') @ rest" by simp
    then show ?thesis by blast
  next
    assume "src = pre @ p @ ''/''"
    then have "src @ '':'' @ rest = pre @ (p @ ''/:'') @ rest" by simp
    then show ?thesis by blast
  qed
  then show ?thesis unfolding directMountText_def occurs_iff using p(1) by blast
qed

text \<open>Every diagnostic of the direct-mount loop body shows a direct-mount text.\<close>

lemma directMountVolume_shown:
  assumes "directMountVolume E content service volume [] = Inr ds" "d \<in> set ds"
  shows "\<exists>shown hint. d = invalidDirectMount E content service shown hint \<and> directMountText shown"
proof (cases "\<exists>v. volume = Str v")
  case True
  then obtain v where v: "volume = Str v" by blast
  then have "directMountText v \<and> ds = [invalidDirectMount E content service v (stringMountHint v)]"
    using assms unfolding v directMountVolume_string by (auto split: if_splits)
  then show ?thesis using assms(2) by auto
next
  case False
  then have "\<And>v. volume \<noteq> Str v" by blast
  note cases = object_form_cases [OF assms(1) [unfolded directMountVolume_nonstring [OF this]]]
  have "ds \<noteq> []" using assms(2) by auto
  with cases obtain src target where "(if String_match src re_direct_end \<noteq> None
      then Inr ([] @ [invalidDirectMount E content service
         (src @ '':'' @ ToString (Number_toString E) target) (objectMountHint E target)])
      else Inr []) = (Inr ds :: exn + LintingResult list)"
    by blast
  then have "directMountSource src \<and> ds = [invalidDirectMount E content service
      (src @ '':'' @ ToString (Number_toString E) target) (objectMountHint E target)]"
    using assms(2) unfolding direct_end_iff by (auto split: if_splits)
  then show ?thesis using assms(2) directMountSource_text by auto
qed

lemma mount_title_inject:
  "title (invalidDirectMount E content service shown hint)
     = title (invalidDirectMount E' content' service' shown' hint') \<longleftrightarrow> shown = shown'"
  unfolding invalidDirectMount_title by simp

lemma compose_mount_shown:
  assumes "YAML_parse E True (mockVariables E content) = Inr mocked" "fst (validate E mocked)"
    "YAML_parse E True content = Inr doc" "lintDockerComposeYml E content files appId = Inr rs"
    "invalidDirectMount E content service shown hint \<in> set rs"
  shows "directMountText shown"
proof -
  let ?d = "invalidDirectMount E content service shown hint"
  have "?d \<in> set rs \<and> id' ?d = invalid_app_data_dir_volume_mount" using assms(5) by simp
  then obtain service' volume where "directMountVolume E content service' volume [] = Inr [?d]"
    unfolding compose_mount_origin [OF assms(1-4)] by blast
  from directMountVolume_shown [OF this, of ?d] obtain shown' hint' where
    s: "?d = invalidDirectMount E content service' shown' hint'" "directMountText shown'"
    by auto
  from s(1) have "title ?d = title (invalidDirectMount E content service' shown' hint')" by simp
  then have "shown = shown'" unfolding mount_title_inject .
  then show ?thesis using s(2) by simp
qed

text \<open>The lazy group stops at a line terminator.\<close>

lemma lazy_ok:
  "lazy c k acc s \<noteq> None \<longleftrightarrow> (\<exists>m r. s = m @ r \<and> (\<forall>x\<in>set m. accepts c x) \<and> k (acc @ m) r \<noteq> None)"
proof (induction s arbitrary: acc)
  case Nil
  show ?case by simp
next
  case (Cons x xs)
  have "lazy c k acc (x # xs) \<noteq> None \<longleftrightarrow>
      k acc (x # xs) \<noteq> None \<or> (accepts c x \<and> lazy c k (acc @ [x]) xs \<noteq> None)"
    by (auto split: option.splits)
  also have "\<dots> \<longleftrightarrow> k acc (x # xs) \<noteq> None \<or>
      (accepts c x \<and> (\<exists>m r. xs = m @ r \<and> (\<forall>y\<in>set m. accepts c y) \<and> k (acc @ x # m) r \<noteq> None))"
    unfolding Cons.IH by simp
  also have "\<dots> \<longleftrightarrow> (\<exists>m r. x # xs = m @ r \<and> (\<forall>y\<in>set m. accepts c y) \<and> k (acc @ m) r \<noteq> None)"
  proof
    assume "k acc (x # xs) \<noteq> None \<or>
      (accepts c x \<and> (\<exists>m r. xs = m @ r \<and> (\<forall>y\<in>set m. accepts c y) \<and> k (acc @ x # m) r \<noteq> None))"
    then show "\<exists>m r. x # xs = m @ r \<and> (\<forall>y\<in>set m. accepts c y) \<and> k (acc @ m) r \<noteq> None"
    proof
      assume "k acc (x # xs) \<noteq> None"
      then have "x # xs = [] @ (x # xs) \<and> (\<forall>y\<in>set []. accepts c y) \<and> k (acc @ []) (x # xs) \<noteq> None"
        by simp
      then show ?thesis by blast
    next
      assume "accepts c x \<and> (\<exists>m r. xs = m @ r \<and> (\<forall>y\<in>set m. accepts c y) \<and> k (acc @ x # m) r \<noteq> None)"
      then obtain m r where "accepts c x" "xs = m @ r" "\<forall>y\<in>set m. accepts c y" "k (acc @ x # m) r \<noteq> None"
        by blast
      then have "x # xs = (x # m) @ r \<and> (\<forall>y\<in>set (x # m). accepts c y) \<and> k (acc @ (x # m)) r \<noteq> None"
        by simp
      then show ?thesis by blast
    qed
  next
    assume "\<exists>m r. x # xs = m @ r \<and> (\<forall>y\<in>set m. accepts c y) \<and> k (acc @ m) r \<noteq> None"
    then obtain m r where e: "x # xs = m @ r" "\<forall>y\<in>set m. accepts c y" "k (acc @ m) r \<noteq> None"
      by blast
    show "k acc (x # xs) \<noteq> None \<or>
      (accepts c x \<and> (\<exists>m r. xs = m @ r \<and> (\<forall>y\<in>set m. accepts c y) \<and> k (acc @ x # m) r \<noteq> None))"
    proof (cases m)
      case Nil
      then show ?thesis using e by simp
    next
      case (Cons y ys)
      then have "accepts c x \<and> xs = ys @ r \<and> (\<forall>y\<in>set ys. accepts c y) \<and> k (acc @ x # ys) r \<noteq> None"
        using e by simp
      then show ?thesis by blast
    qed
  qed
  finally show ?case .
qed

lemma run_lazy_colon_None:
  assumes "CHR '':'' \<notin> set u" "\<exists>c\<in>set u. LineTerminator c"
  shows "run (Cap Dot LazyStar # Atom (Lit (CHR '':'')) Once # ns) st (u @ rest) caps = None"
proof (rule ccontr)
  assume "run (Cap Dot LazyStar # Atom (Lit (CHR '':'')) Once # ns) st (u @ rest) caps \<noteq> None"
  then have "lazy Dot (\<lambda>m r. run (Atom (Lit (CHR '':'')) Once # ns) (st \<and> m = []) r (caps @ [m])) [] (u @ rest) \<noteq> None"
    by simp
  then obtain m r where m: "u @ rest = m @ r" "\<forall>x\<in>set m. accepts Dot x"
    "run (Atom (Lit (CHR '':'')) Once # ns) (st \<and> [] @ m = []) r (caps @ [[] @ m]) \<noteq> None"
    unfolding lazy_ok by blast
  from m(3) obtain r' where r: "r = CHR '':'' # r'" unfolding run_lit_ok by blast
  from m(1) r obtain w where "u = m @ w \<and> w @ rest = CHR '':'' # r' \<or> u @ w = m \<and> rest = w @ CHR '':'' # r'"
    unfolding append_eq_append_conv2 by blast
  then have "set u \<subseteq> set m"
  proof
    assume a: "u = m @ w \<and> w @ rest = CHR '':'' # r'"
    then have "w = []" using assms(1) by (cases w) auto
    then show ?thesis using a by simp
  next
    assume "u @ w = m \<and> rest = w @ CHR '':'' # r'"
    then show ?thesis by auto
  qed
  then show False using assms(2) m(2) by auto
qed

lemma run_lazy_eol_None:
  assumes "\<exists>c\<in>set u. LineTerminator c"
  shows "run [Cap Dot LazyStar, Eol] st u caps = None"
proof (rule ccontr)
  assume "run [Cap Dot LazyStar, Eol] st u caps \<noteq> None"
  then have "lazy Dot (\<lambda>m r. run [Eol] (st \<and> m = []) r (caps @ [m])) [] u \<noteq> None"
    by simp
  then obtain m r where m: "u = m @ r" "\<forall>x\<in>set m. accepts Dot x"
    "run [Eol] (st \<and> [] @ m = []) r (caps @ [[] @ m]) \<noteq> None"
    unfolding lazy_ok by blast
  from m(3) have "r = []" unfolding run_eol_ok .
  then show False using assms m(1) m(2) by auto
qed

text \<open>A match of a placeholder pattern starts at a dollar sign.\<close>

lemma match_at_dollar:
  assumes "String_match (CHR ''$'' # xs) (re_app_data_dir @ ns) \<noteq> None" "CHR ''$'' \<notin> set xs"
  shows "run (re_app_data_dir @ ns) True (CHR ''$'' # xs) [] \<noteq> None"
proof (rule ccontr)
  assume "\<not> run (re_app_data_dir @ ns) True (CHR ''$'' # xs) [] \<noteq> None"
  then have "run (re_app_data_dir @ ns) True (CHR ''$'' # xs) [] = None" by blast
  then have "String_match (CHR ''$'' # xs) (re_app_data_dir @ ns) = None"
    using assms(2) by (rule no_match_dollar)
  then show False using assms(1) by simp
qed

lemma subpath_colon_broken:
  assumes "placeholder ph" "CHR '':'' \<notin> set sub" "\<exists>c\<in>set sub. LineTerminator c"
    "CHR ''$'' \<notin> set (sub @ target)"
  shows "String_match (ph @ ''/'' @ sub @ '':'' @ target) re_subpath_colon = None"
proof (rule ccontr)
  let ?ns = "[Atom (Lit (CHR ''/'')) Opt, Cap Dot LazyStar, Atom (Lit (CHR '':'')) Once]"
  let ?tail = "[Cap Dot LazyStar, Atom (Lit (CHR '':'')) Once]"
  assume a: "String_match (ph @ ''/'' @ sub @ '':'' @ target) re_subpath_colon \<noteq> None"
  obtain xs where xs: "ph @ ''/'' @ sub @ '':'' @ target = CHR ''$'' # xs" "CHR ''$'' \<notin> set xs"
    using assms(1) assms(4) by (auto simp: placeholder_def)
  have "run (re_app_data_dir @ ?ns) True (ph @ ''/'' @ sub @ '':'' @ target) [] \<noteq> None"
    using a xs(2) unfolding xs(1) re_subpath_colon_def by (rule match_at_dollar)
  then obtain p r where p: "p \<in> set placeholderForms" "ph @ ''/'' @ sub @ '':'' @ target = p @ r"
    "run ?ns False r [] \<noteq> None"
    unfolding run_placeholder_ok by blast
  from assms(1) p(1) p(2) have r: "r = (''/'' @ sub) @ '':'' @ target \<or> r = (''}/'' @ sub) @ '':'' @ target"
    by (auto simp: placeholder_def placeholderForms_def)
  have none: "run ?tail st (u @ '':'' @ target) caps = None"
    if "u = sub \<or> u = ''/'' @ sub \<or> u = ''}/'' @ sub" for u st caps
    using that assms(2) assms(3) by (intro run_lazy_colon_None) auto
  from p(3) have "(\<exists>r'. r = CHR ''/'' # r' \<and> run ?tail False r' [] \<noteq> None) \<or> run ?tail False r [] \<noteq> None"
    unfolding run_opt_ok .
  then show False
  proof
    assume "\<exists>r'. r = CHR ''/'' # r' \<and> run ?tail False r' [] \<noteq> None"
    then obtain r' where r': "r = CHR ''/'' # r'" "run ?tail False r' [] \<noteq> None" by blast
    from r r'(1) have e: "r' = sub @ '':'' @ target" by auto
    have n: "run ?tail False (sub @ '':'' @ target) [] = None" by (rule none) simp
    from r'(2) [unfolded e] n show False by (rule notE)
  next
    assume t: "run ?tail False r [] \<noteq> None"
    have n1: "run ?tail False ((''/'' @ sub) @ '':'' @ target) [] = None" by (rule none) simp
    have n2: "run ?tail False ((''}/'' @ sub) @ '':'' @ target) [] = None" by (rule none) simp
    from r show False
    proof
      assume e: "r = (''/'' @ sub) @ '':'' @ target"
      from t [unfolded e] n1 show False by (rule notE)
    next
      assume e: "r = (''}/'' @ sub) @ '':'' @ target"
      from t [unfolded e] n2 show False by (rule notE)
    qed
  qed
qed

lemma subpath_end_broken:
  assumes "placeholder ph" "\<exists>c\<in>set sub. LineTerminator c" "CHR ''$'' \<notin> set sub"
  shows "String_match (ph @ ''/'' @ sub) re_subpath_end = None"
proof (rule ccontr)
  let ?ns = "[Atom (Lit (CHR ''/'')) Opt, Cap Dot LazyStar, Eol]"
  let ?tail = "[Cap Dot LazyStar, Eol]"
  assume a: "String_match (ph @ ''/'' @ sub) re_subpath_end \<noteq> None"
  obtain xs where xs: "ph @ ''/'' @ sub = CHR ''$'' # xs" "CHR ''$'' \<notin> set xs"
    using assms(1) assms(3) by (auto simp: placeholder_def)
  have "run (re_app_data_dir @ ?ns) True (ph @ ''/'' @ sub) [] \<noteq> None"
    using a xs(2) unfolding xs(1) re_subpath_end_def by (rule match_at_dollar)
  then obtain p r where p: "p \<in> set placeholderForms" "ph @ ''/'' @ sub = p @ r"
    "run ?ns False r [] \<noteq> None"
    unfolding run_placeholder_ok by blast
  from assms(1) p(1) p(2) have r: "r = ''/'' @ sub \<or> r = ''}/'' @ sub"
    by (auto simp: placeholder_def placeholderForms_def)
  have none: "run ?tail st u caps = None"
    if "u = sub \<or> u = ''/'' @ sub \<or> u = ''}/'' @ sub" for u st caps
    using that assms(2) by (intro run_lazy_eol_None) auto
  from p(3) have "(\<exists>r'. r = CHR ''/'' # r' \<and> run ?tail False r' [] \<noteq> None) \<or> run ?tail False r [] \<noteq> None"
    unfolding run_opt_ok .
  then show False
  proof
    assume "\<exists>r'. r = CHR ''/'' # r' \<and> run ?tail False r' [] \<noteq> None"
    then obtain r' where r': "r = CHR ''/'' # r'" "run ?tail False r' [] \<noteq> None" by blast
    from r r'(1) have e: "r' = sub" by auto
    have n: "run ?tail False sub [] = None" by (rule none) simp
    from r'(2) [unfolded e] n show False by (rule notE)
  next
    assume t: "run ?tail False r [] \<noteq> None"
    have n1: "run ?tail False (''/'' @ sub) [] = None" by (rule none) simp
    have n2: "run ?tail False (''}/'' @ sub) [] = None" by (rule none) simp
    from r show False
    proof
      assume e: "r = ''/'' @ sub"
      from t [unfolded e] n1 show False by (rule notE)
    next
      assume e: "r = ''}/'' @ sub"
      from t [unfolded e] n2 show False by (rule notE)
    qed
  qed
qed

lemma missingFileVolume_string_broken:
  assumes "placeholder ph" "CHR '':'' \<notin> set sub" "\<exists>c\<in>set sub. LineTerminator c"
    "CHR ''$'' \<notin> set (sub @ target)"
  shows "missingFileVolume E content files appId service (Str (ph @ ''/'' @ sub @ '':'' @ target)) result
    = Inr result"
  using subpath_colon_broken [OF assms]
  by (simp add: missingFileVolume_def firstCapture_def)

lemma missingFileVolume_object_broken:
  assumes "placeholder ph" "\<exists>c\<in>set sub. LineTerminator c" "CHR ''$'' \<notin> set sub"
    "map_of kvs ''source'' = Some (Str (ph @ ''/'' @ sub))" "map_of kvs ''target'' = Some t"
  shows "missingFileVolume E content files appId service (Obj kvs) result = Inr result"
  using subpath_end_broken [OF assms(1-3)] missingFileVolume_object [OF assms(4) assms(5)]
  by (simp add: firstCapture_def)

section \<open>The claims\<close>

text \<open>
  C1 (as amended).  A text that fails to parse gives exactly one diagnostic, with id
  \<open>invalid_yaml_syntax\<close>, severity \<open>error\<close> and neither line nor column: in the app-store
  and the app validator when the input itself fails to parse; in the compose validator
  when the mocked text fails to parse, and also when the mocked text parses and is
  schema-valid, the first two loops return, and the input itself then fails to parse.
\<close>

theorem C1_invalid_yaml_single_diagnostic:
  "(YAML_parse E False content = Inl e \<longrightarrow>
      lintUmbrelAppStoreYml E content = [invalidYamlSyntax ''umbrel-app-store.yml'' e] \<and>
      lintUmbrelAppYml E content options = Inr [invalidYamlSyntax ''umbrel-app.yml'' e]) \<and>
   (YAML_parse E True (mockVariables E content) = Inl e \<longrightarrow>
      lintDockerComposeYml E content files appId = Inr [invalidYamlSyntax ''docker-compose.yml'' e]) \<and>
   (YAML_parse E True (mockVariables E content) = Inr mocked \<and> fst (validate E mocked) \<and>
    YAML_parse E True content = Inl e \<and> lintDockerComposeYml E content files appId = Inr rs \<longrightarrow>
      rs = [invalidYamlSyntax ''docker-compose.yml'' e]) \<and>
   id' (invalidYamlSyntax file e) = invalid_yaml_syntax \<and>
   severity (invalidYamlSyntax file e) = error \<and>
   line (invalidYamlSyntax file e) = None \<and>
   column (invalidYamlSyntax file e) = None"
proof -
  have store: "YAML_parse E False content = Inl e \<Longrightarrow>
      lintUmbrelAppStoreYml E content = [invalidYamlSyntax ''umbrel-app-store.yml'' e]"
    by (simp add: lintUmbrelAppStoreYml_def)
  have app: "YAML_parse E False content = Inl e \<Longrightarrow>
      lintUmbrelAppYml E content options = Inr [invalidYamlSyntax ''umbrel-app.yml'' e]"
    by (simp add: lintUmbrelAppYml_def)
  have compose: "YAML_parse E True (mockVariables E content) = Inl e \<Longrightarrow>
      lintDockerComposeYml E content files appId = Inr [invalidYamlSyntax ''docker-compose.yml'' e]"
    by (simp add: lintDockerComposeYml_def)
  have reparse: "rs = [invalidYamlSyntax ''docker-compose.yml'' e]"
    if h: "YAML_parse E True (mockVariables E content) = Inr mocked" "fst (validate E mocked)"
      "YAML_parse E True content = Inl e" "lintDockerComposeYml E content files appId = Inr rs"
  proof -
    have "semanticChecks E content files appId mocked = Inr rs"
      using lint_semantic [OF h(1) h(2)] h(4) by simp
    then show ?thesis
      using h(3) by (auto simp: semanticChecks_def bindE_eq_Inr)
  qed
  show ?thesis
    using store app compose reparse by (simp add: invalidYamlSyntax_def)
qed

theorem C1_witness:
  "lintUmbrelAppStoreYml demoEnv ''services: {'' = [invalidYamlSyntax ''umbrel-app-store.yml'' ''YAMLParseError''] \<and>
   lintUmbrelAppYml demoEnv ''services: {'' \<lparr>isNewAppSubmission = None, pullRequestUrl = None\<rparr>
     = Inr [invalidYamlSyntax ''umbrel-app.yml'' ''YAMLParseError''] \<and>
   lintDockerComposeYml demoEnv ''services: {'' [] ''demo''
     = Inr [invalidYamlSyntax ''docker-compose.yml'' ''YAMLParseError''] \<and>
   lintDockerComposeYml demoEnv demo_reparse [] ''demo''
     = Inr [invalidYamlSyntax ''docker-compose.yml'' ''YAMLParseError'']"
proof -
  have p1: "YAML_parse demoEnv False ''services: {'' = Inl ''YAMLParseError''"
    by code_simp
  have p2: "YAML_parse demoEnv True (mockVariables demoEnv ''services: {'') = Inl ''YAMLParseError''"
    by code_simp
  have p3: "YAML_parse demoEnv True (mockVariables demoEnv demo_reparse)
      = Inr (Obj [(''services'', Obj [(''web'', Obj [(''image'', Str ''nginx:1.25@sha256:abc''),
          (''command'', Arr [Str ''/data-dir''])])])])"
    by code_simp
  have p4: "fst (validate demoEnv (Obj [(''services'', Obj [(''web'', Obj [(''image'', Str ''nginx:1.25@sha256:abc''),
          (''command'', Arr [Str ''/data-dir''])])])]))"
    by code_simp
  have p5: "YAML_parse demoEnv True demo_reparse = Inl ''YAMLParseError''"
    by code_simp
  have p6: "lintDockerComposeYml demoEnv demo_reparse [] ''demo''
      = Inr (projr (lintDockerComposeYml demoEnv demo_reparse [] ''demo''))"
    by code_simp
  from C1_invalid_yaml_single_diagnostic [of demoEnv "''services: {''" "''YAMLParseError''"
      "\<lparr>isNewAppSubmission = None, pullRequestUrl = None\<rparr>" "[]" "''demo''"] p1 p2
  have a: "lintUmbrelAppStoreYml demoEnv ''services: {'' = [invalidYamlSyntax ''umbrel-app-store.yml'' ''YAMLParseError'']"
    "lintUmbrelAppYml demoEnv ''services: {'' \<lparr>isNewAppSubmission = None, pullRequestUrl = None\<rparr>
       = Inr [invalidYamlSyntax ''umbrel-app.yml'' ''YAMLParseError'']"
    "lintDockerComposeYml demoEnv ''services: {'' [] ''demo''
       = Inr [invalidYamlSyntax ''docker-compose.yml'' ''YAMLParseError'']"
    by blast+
  from C1_invalid_yaml_single_diagnostic [where E = demoEnv and content = demo_reparse
      and e = "''YAMLParseError''" and files = "[]" and appId = "''demo''"
      and rs = "projr (lintDockerComposeYml demoEnv demo_reparse [] ''demo'')"] p3 p4 p5 p6
  have "projr (lintDockerComposeYml demoEnv demo_reparse [] ''demo'')
      = [invalidYamlSyntax ''docker-compose.yml'' ''YAMLParseError'']"
    by blast
  then show ?thesis using a p6 by simp
qed

text \<open>
  C1 as stated fails for the compose validator: the input does not parse, its mocked text
  does and violates the schema, and the result is the schema diagnostic.
\<close>

theorem C1_counterexample:
  "YAML_parse demoEnv True demo_unparsable = Inl ''YAMLParseError'' \<and>
   YAML_parse demoEnv False demo_unparsable = Inl ''YAMLParseError'' \<and>
   lintDockerComposeYml demoEnv demo_unparsable [] ''demo'' =
     Inr [\<lparr>id' = AjvKeyword ''type'', propertiesPath = Some ''services'', line = None, column = None,
           severity = error, title = ''/services'', message = ''must be object''\<rparr>]"
  by code_simp

text \<open>
  C2 (as amended).  When the mocked text parses, a schema violation does stop the semantic
  checks: the result is exactly one diagnostic per violation.  When the mocked document
  is schema-valid and the input parses too, the four semantic loops all run and none
  stops another: the validator returns exactly when each loop returns on an empty array,
  and the result is what they push, in the order image naming, bare booleans, direct
  mounts, missing files.
\<close>

theorem C2_schema_violations_short_circuit:
  "YAML_parse E True (mockVariables E content) = Inr mocked \<longrightarrow>
     (\<not> fst (validate E mocked) \<longrightarrow>
        lintDockerComposeYml E content files appId =
          Inr (map (schemaViolation E content) (case snd (validate E mocked) of None \<Rightarrow> [] | Some es \<Rightarrow> es))) \<and>
     (fst (validate E mocked) \<and> YAML_parse E True content = Inr doc \<longrightarrow>
        (lintDockerComposeYml E content files appId = Inr rs \<longleftrightarrow>
           (\<exists>r1 r2 r3 r4.
              getProp mocked ''services'' \<noteq> Inl TypeError \<and>
              forOf (serviceNames mocked) (imageCheck E content mocked) [] = Inr r1 \<and>
              forOf (serviceNames mocked) (booleanCheck E content mocked) [] = Inr r2 \<and>
              getProp doc ''services'' \<noteq> Inl TypeError \<and>
              forOf (serviceNames doc) (directMountCheck E content doc) [] = Inr r3 \<and>
              forOf (serviceNames doc) (missingFileCheck E content files appId doc) [] = Inr r4 \<and>
              rs = r1 @ r2 @ r3 @ r4)))"
proof (intro impI conjI)
  assume p: "YAML_parse E True (mockVariables E content) = Inr mocked"
  {
    assume "\<not> fst (validate E mocked)"
    then show "lintDockerComposeYml E content files appId =
        Inr (map (schemaViolation E content) (case snd (validate E mocked) of None \<Rightarrow> [] | Some es \<Rightarrow> es))"
      using p by (cases "validate E mocked") (simp add: lintDockerComposeYml_def)
  next
    assume v: "fst (validate E mocked) \<and> YAML_parse E True content = Inr doc"
    then show "lintDockerComposeYml E content files appId = Inr rs \<longleftrightarrow>
           (\<exists>r1 r2 r3 r4.
              getProp mocked ''services'' \<noteq> Inl TypeError \<and>
              forOf (serviceNames mocked) (imageCheck E content mocked) [] = Inr r1 \<and>
              forOf (serviceNames mocked) (booleanCheck E content mocked) [] = Inr r2 \<and>
              getProp doc ''services'' \<noteq> Inl TypeError \<and>
              forOf (serviceNames doc) (directMountCheck E content doc) [] = Inr r3 \<and>
              forOf (serviceNames doc) (missingFileCheck E content files appId doc) [] = Inr r4 \<and>
              rs = r1 @ r2 @ r3 @ r4)"
      using lint_semantic [OF p, of files appId] semanticChecks_Inr [of E content doc files appId mocked rs]
      by simp
  }
qed

theorem C2_witness:
  "lintDockerComposeYml demoEnv demo_schema_invalid [] ''demo'' =
     Inr (map (schemaViolation demoEnv demo_schema_invalid)
       [DefinedError ''type'' ''/services/web/restart'' (Some ''must be string'')]) \<and>
   (\<exists>r1 r2 r3 r4.
      forOf (serviceNames (demo_services ''/data-dir'')) (imageCheck demoEnv demo_compose (demo_services ''/data-dir'')) [] = Inr r1 \<and>
      forOf (serviceNames (demo_services ''/data-dir'')) (booleanCheck demoEnv demo_compose (demo_services ''/data-dir'')) [] = Inr r2 \<and>
      forOf (serviceNames (demo_services ''${APP_DATA_DIR}'')) (directMountCheck demoEnv demo_compose (demo_services ''${APP_DATA_DIR}'')) [] = Inr r3 \<and>
      forOf (serviceNames (demo_services ''${APP_DATA_DIR}'')) (missingFileCheck demoEnv demo_compose [] ''demo'' (demo_services ''${APP_DATA_DIR}'')) [] = Inr r4 \<and>
      lintDockerComposeYml demoEnv demo_compose [] ''demo'' = Inr (r1 @ r2 @ r3 @ r4))"
proof -
  let ?bad = "Obj [(''services'', Obj [(''web'', Obj [(''image'', Str ''nginx''), (''restart'', Num (Finite 5))])])]"
  have h: "YAML_parse demoEnv True (mockVariables demoEnv demo_schema_invalid) = Inr ?bad"
    "\<not> fst (validate demoEnv ?bad)"
    "snd (validate demoEnv ?bad) = Some [DefinedError ''type'' ''/services/web/restart'' (Some ''must be string'')]"
    by code_simp+
  from C2_schema_violations_short_circuit [where E = demoEnv and content = demo_schema_invalid
      and mocked = ?bad and files = "[]" and appId = "''demo''"] h
  have a: "lintDockerComposeYml demoEnv demo_schema_invalid [] ''demo'' =
     Inr (map (schemaViolation demoEnv demo_schema_invalid)
       [DefinedError ''type'' ''/services/web/restart'' (Some ''must be string'')])"
    by simp
  have g: "YAML_parse demoEnv True (mockVariables demoEnv demo_compose) = Inr (demo_services ''/data-dir'')"
    "fst (validate demoEnv (demo_services ''/data-dir''))"
    "YAML_parse demoEnv True demo_compose = Inr (demo_services ''${APP_DATA_DIR}'')"
    "lintDockerComposeYml demoEnv demo_compose [] ''demo'' = Inr (projr (lintDockerComposeYml demoEnv demo_compose [] ''demo''))"
    by code_simp+
  from C2_schema_violations_short_circuit [where E = demoEnv and content = demo_compose
      and mocked = "demo_services ''/data-dir''" and doc = "demo_services ''${APP_DATA_DIR}''"
      and files = "[]" and appId = "''demo''"
      and rs = "projr (lintDockerComposeYml demoEnv demo_compose [] ''demo'')"] g
  have "\<exists>r1 r2 r3 r4.
      getProp (demo_services ''/data-dir'') ''services'' \<noteq> Inl TypeError \<and>
      forOf (serviceNames (demo_services ''/data-dir'')) (imageCheck demoEnv demo_compose (demo_services ''/data-dir'')) [] = Inr r1 \<and>
      forOf (serviceNames (demo_services ''/data-dir'')) (booleanCheck demoEnv demo_compose (demo_services ''/data-dir'')) [] = Inr r2 \<and>
      getProp (demo_services ''${APP_DATA_DIR}'') ''services'' \<noteq> Inl TypeError \<and>
      forOf (serviceNames (demo_services ''${APP_DATA_DIR}'')) (directMountCheck demoEnv demo_compose (demo_services ''${APP_DATA_DIR}'')) [] = Inr r3 \<and>
      forOf (serviceNames (demo_services ''${APP_DATA_DIR}'')) (missingFileCheck demoEnv demo_compose [] ''demo'' (demo_services ''${APP_DATA_DIR}'')) [] = Inr r4 \<and>
      projr (lintDockerComposeYml demoEnv demo_compose [] ''demo'') = r1 @ r2 @ r3 @ r4"
    by blast
  then show ?thesis using a g(4) by auto
qed

text \<open>
  C2 as stated fails: the mocked document violates the schema, the result is the schema
  diagnostic alone, and the diagnostic the image loop would push for the service is not
  in it.
\<close>

theorem C2_counterexample:
  "lintDockerComposeYml demoEnv demo_schema_invalid [] ''demo'' =
     Inr [\<lparr>id' = AjvKeyword ''type'', propertiesPath = Some ''services.web.restart'', line = None,
           column = None, severity = error, title = ''/services/web/restart'',
           message = ''must be string''\<rparr>] \<and>
   imageCheck demoEnv demo_schema_invalid
     (Obj [(''services'', Obj [(''web'', Obj [(''image'', Str ''nginx''), (''restart'', Num (Finite 5))])])])
     ''web'' [] = Inr [invalidImageName demoEnv demo_schema_invalid ''web'' ''nginx'']"
  by code_simp

text \<open>
  C8.  With the flag set and a pull request URL supplied, a non-empty string as line 115
  reads it: when the manifest passes the schema and its submission field is not the URL,
  the result is the single \<open>invalid_submission_field\<close> error.  When the schema fails,
  the result is its issues.  No result holds both kinds, and a submission diagnostic
  means the schema passed.
\<close>

theorem C8_submission_field:
  "(isNewAppSubmission options = Some True \<and> pullRequestUrl options = Some url \<and> url \<noteq> [] \<and>
    YAML_parse E False content = Inr raw \<and> umbrelAppYmlSchema E raw = Inr data \<and>
    getProp data ''submission'' = Inr submission \<and> submission \<noteq> Str url \<longrightarrow>
      lintUmbrelAppYml E content options = Inr [invalidSubmissionField E submission url]) \<and>
   id' (invalidSubmissionField E submission url) = invalid_submission_field \<and>
   severity (invalidSubmissionField E submission url) = error \<and>
   (YAML_parse E False content = Inr raw \<and> umbrelAppYmlSchema E raw = Inl issues \<longrightarrow>
      lintUmbrelAppYml E content options = Inr (map (zodViolation E content) issues)) \<and>
   (lintUmbrelAppYml E content options = Inr rs \<longrightarrow>
      \<not> ((\<exists>d\<in>set rs. id' d = invalid_submission_field) \<and> (\<exists>d\<in>set rs. \<exists>c. id' d = ZodIssueCode c))) \<and>
   (lintUmbrelAppYml E content options = Inr rs \<and> (\<exists>d\<in>set rs. id' d = invalid_submission_field) \<longrightarrow>
      (\<exists>raw data. YAML_parse E False content = Inr raw \<and> umbrelAppYmlSchema E raw = Inr data))"
proof -
  have a: "lintUmbrelAppYml E content options = Inr [invalidSubmissionField E submission url]"
    if "isNewAppSubmission options = Some True" "pullRequestUrl options = Some url" "url \<noteq> []"
      "YAML_parse E False content = Inr raw" "umbrelAppYmlSchema E raw = Inr data"
      "getProp data ''submission'' = Inr submission" "submission \<noteq> Str url"
    using that by (simp add: lintUmbrelAppYml_def)
  have b: "lintUmbrelAppYml E content options = Inr (map (zodViolation E content) issues)"
    if "YAML_parse E False content = Inr raw" "umbrelAppYmlSchema E raw = Inl issues"
    using that by (simp add: lintUmbrelAppYml_def)
  have c: "\<not> ((\<exists>d\<in>set rs. id' d = invalid_submission_field) \<and> (\<exists>d\<in>set rs. \<exists>c. id' d = ZodIssueCode c))"
    if "lintUmbrelAppYml E content options = Inr rs"
    using lintUmbrelAppYml_cases [OF that] by auto
  have d: "\<exists>raw data. YAML_parse E False content = Inr raw \<and> umbrelAppYmlSchema E raw = Inr data"
    if "lintUmbrelAppYml E content options = Inr rs" "\<exists>d\<in>set rs. id' d = invalid_submission_field"
    using lintUmbrelAppYml_cases [OF that(1)] that(2) by auto
  show ?thesis using a b c d by (simp add: invalidSubmissionField_def)
qed


theorem C8_witness:
  "lintUmbrelAppYml demoEnv demo_manifest
     \<lparr>isNewAppSubmission = Some True, pullRequestUrl = Some ''https://github.com/getumbrel/umbrel-apps/pull/2''\<rparr>
     = Inr [invalidSubmissionField demoEnv (Str ''https://github.com/getumbrel/umbrel-apps/pull/1'')
         ''https://github.com/getumbrel/umbrel-apps/pull/2''] \<and>
   lintUmbrelAppYml demoEnv demo_compose
     \<lparr>isNewAppSubmission = Some True, pullRequestUrl = Some ''https://github.com/getumbrel/umbrel-apps/pull/2''\<rparr>
     = Inr (map (zodViolation demoEnv demo_compose) [ZodIssue ''invalid_type'' [Key ''name''] ''Required''])"
proof -
  let ?options = "\<lparr>isNewAppSubmission = Some True, pullRequestUrl = Some ''https://github.com/getumbrel/umbrel-apps/pull/2''\<rparr>"
  have h: "isNewAppSubmission ?options = Some True"
    "pullRequestUrl ?options = Some ''https://github.com/getumbrel/umbrel-apps/pull/2''"
    "''https://github.com/getumbrel/umbrel-apps/pull/2'' \<noteq> []"
    "YAML_parse demoEnv False demo_manifest = Inr demo_manifest_data"
    "umbrelAppYmlSchema demoEnv demo_manifest_data = Inr demo_manifest_data"
    "getProp demo_manifest_data ''submission'' = Inr (Str ''https://github.com/getumbrel/umbrel-apps/pull/1'')"
    "Str ''https://github.com/getumbrel/umbrel-apps/pull/1'' \<noteq> Str ''https://github.com/getumbrel/umbrel-apps/pull/2''"
    by code_simp+
  have g: "YAML_parse demoEnv False demo_compose = Inr (demo_services ''${APP_DATA_DIR}'')"
    "umbrelAppYmlSchema demoEnv (demo_services ''${APP_DATA_DIR}'') = Inl [ZodIssue ''invalid_type'' [Key ''name''] ''Required'']"
    by code_simp+
  from C8_submission_field [where E = demoEnv and content = demo_manifest and options = ?options
      and url = "''https://github.com/getumbrel/umbrel-apps/pull/2''" and raw = demo_manifest_data
      and data = demo_manifest_data and submission = "Str ''https://github.com/getumbrel/umbrel-apps/pull/1''"] h
  have a: "lintUmbrelAppYml demoEnv demo_manifest ?options
     = Inr [invalidSubmissionField demoEnv (Str ''https://github.com/getumbrel/umbrel-apps/pull/1'')
         ''https://github.com/getumbrel/umbrel-apps/pull/2'']"
    by blast
  from C8_submission_field [where E = demoEnv and content = demo_compose and options = ?options
      and raw = "demo_services ''${APP_DATA_DIR}''"
      and issues = "[ZodIssue ''invalid_type'' [Key ''name''] ''Required'']"] g
  have b: "lintUmbrelAppYml demoEnv demo_compose ?options
     = Inr (map (zodViolation demoEnv demo_compose) [ZodIssue ''invalid_type'' [Key ''name''] ''Required''])"
    by blast
  show ?thesis using a b by simp
qed

text \<open>
  C3 (as amended).  When both texts parse, the mocked document is schema-valid and the
  validator returns: for every service whose image is a non-empty string that does not
  have the form name:tag@digest, the error \<open>invalid_docker_image_name\<close> for that service is
  in the result; for every service whose image has that form and whose tag, as the
  pattern captures it, is \<open>latest\<close>, the warning with the same id is in the result; and
  when every image string has the form with a tag other than \<open>latest\<close>, no diagnostic
  of the result has that id.  A service whose image is falsy, the empty string as much
  as an absent one, is skipped: the loop body pushes nothing for it, and every
  diagnostic of the result with that id is the error or the warning of a service whose
  image is a non-empty string.
\<close>

theorem C3_image_naming:
  assumes "YAML_parse E True (mockVariables E content) = Inr mocked" "fst (validate E mocked)"
    "YAML_parse E True content = Inr doc" "lintDockerComposeYml E content files appId = Inr rs"
  shows
    "(service \<in> set (serviceNames mocked) \<and> serviceMember mocked service ''image'' = Inr (Str img) \<and>
      img \<noteq> [] \<and> \<not> (\<exists>name tag digest. image_parts img name tag digest) \<longrightarrow>
        invalidImageName E content service img \<in> set rs) \<and>
     (service \<in> set (serviceNames mocked) \<and> serviceMember mocked service ''image'' = Inr (Str img) \<and>
      (\<exists>name tag digest. image_parts img name tag digest) \<and> imageVersion img = Some ''latest'' \<longrightarrow>
        invalidImageTag E content service ''latest'' \<in> set rs) \<and>
     ((\<forall>s\<in>set (serviceNames mocked). \<forall>i. serviceMember mocked s ''image'' = Inr (Str i) \<longrightarrow>
         (\<exists>name tag digest. image_parts i name tag digest) \<and> imageVersion i \<noteq> Some ''latest'') \<longrightarrow>
        (\<forall>d\<in>set rs. id' d \<noteq> invalid_docker_image_name)) \<and>
     id' (invalidImageName E content service img) = invalid_docker_image_name \<and>
     severity (invalidImageName E content service img) = error \<and>
     propertiesPath (invalidImageName E content service img) = Some (''services.'' @ service @ ''.image'') \<and>
     id' (invalidImageTag E content service ''latest'') = invalid_docker_image_name \<and>
     severity (invalidImageTag E content service ''latest'') = warning \<and>
     propertiesPath (invalidImageTag E content service ''latest'') = Some (''services.'' @ service @ ''.image'') \<and>
     (serviceMember mocked service ''image'' = Inr imageValue \<and> \<not> truthy imageValue \<longrightarrow>
        imageCheck E content mocked service result = Inr result) \<and>
     \<not> truthy (Str []) \<and> \<not> truthy Undefined \<and>
     (d \<in> set rs \<and> id' d = invalid_docker_image_name \<longrightarrow>
        (\<exists>s\<in>set (serviceNames mocked). \<exists>i. serviceMember mocked s ''image'' = Inr (Str i) \<and> i \<noteq> [] \<and>
           (String_match i re_image = None \<and> d = invalidImageName E content s i \<or>
            imageVersion i = Some ''latest'' \<and> d = invalidImageTag E content s ''latest'')))"
proof -
  from compose_result [OF assms] obtain r1 r2 r3 r4 where r:
    "forOf (serviceNames mocked) (imageCheck E content mocked) [] = Inr r1"
    "forOf (serviceNames mocked) (booleanCheck E content mocked) [] = Inr r2"
    "forOf (serviceNames doc) (directMountCheck E content doc) [] = Inr r3"
    "forOf (serviceNames doc) (missingFileCheck E content files appId doc) [] = Inr r4"
    "rs = r1 @ r2 @ r3 @ r4"
    by blast
  have a: "invalidImageName E content service img \<in> set rs"
    if "service \<in> set (serviceNames mocked)" "serviceMember mocked service ''image'' = Inr (Str img)"
      "img \<noteq> []" "\<not> (\<exists>name tag digest. image_parts img name tag digest)"
  proof -
    have "String_match img re_image = None" using that(4) by (simp add: image_match_None)
    then have "invalidImageName E content service img \<in> set r1"
      using image_loop_member [OF r(1)] that by blast
    then show ?thesis using r(5) by simp
  qed
  have b: "invalidImageTag E content service ''latest'' \<in> set rs"
    if "service \<in> set (serviceNames mocked)" "serviceMember mocked service ''image'' = Inr (Str img)"
      "\<exists>name tag digest. image_parts img name tag digest" "imageVersion img = Some ''latest''"
  proof -
    have "img \<noteq> []" using that(3) by (auto simp: image_parts_def)
    then have "invalidImageTag E content service ''latest'' \<in> set r1"
      using image_loop_member [OF r(1)] that by blast
    then show ?thesis using r(5) by simp
  qed
  have c: "\<forall>d\<in>set rs. id' d \<noteq> invalid_docker_image_name"
    if h: "\<forall>s\<in>set (serviceNames mocked). \<forall>i. serviceMember mocked s ''image'' = Inr (Str i) \<longrightarrow>
         (\<exists>name tag digest. image_parts i name tag digest) \<and> imageVersion i \<noteq> Some ''latest''"
  proof
    fix d assume "d \<in> set rs"
    then consider "d \<in> set r1" | "d \<in> set r2" | "d \<in> set r3" | "d \<in> set r4"
      using r(5) by auto
    then show "id' d \<noteq> invalid_docker_image_name"
    proof cases
      case 1
      then obtain s i where s: "s \<in> set (serviceNames mocked)" "serviceMember mocked s ''image'' = Inr (Str i)"
        "String_match i re_image = None \<or> imageVersion i = Some ''latest''"
        using image_loop_member [OF r(1), of d] by blast
      then have "(\<exists>name tag digest. image_parts i name tag digest) \<and> imageVersion i \<noteq> Some ''latest''"
        using h by blast
      then show ?thesis using s(3) by (simp add: image_match_None)
    next
      case 2
      then show ?thesis using boolean_loop_ids [OF r(2)] by auto
    next
      case 3
      then show ?thesis using mount_loop_ids [OF r(3)] by auto
    next
      case 4
      then show ?thesis using missing_loop_ids [OF r(4)] by auto
    qed
  qed
  have skip: "imageCheck E content mocked service result = Inr result"
    if "serviceMember mocked service ''image'' = Inr imageValue" "\<not> truthy imageValue"
    using that by (simp add: imageCheck_def)
  have origin: "\<exists>s\<in>set (serviceNames mocked). \<exists>i. serviceMember mocked s ''image'' = Inr (Str i) \<and> i \<noteq> [] \<and>
           (String_match i re_image = None \<and> d = invalidImageName E content s i \<or>
            imageVersion i = Some ''latest'' \<and> d = invalidImageTag E content s ''latest'')"
    if d: "d \<in> set rs" "id' d = invalid_docker_image_name"
  proof -
    from d(1) consider "d \<in> set r1" | "d \<in> set r2" | "d \<in> set r3" | "d \<in> set r4"
      using r(5) by auto
    then have "d \<in> set r1"
    proof cases
      case 1
      then show ?thesis .
    next
      case 2
      then show ?thesis using boolean_loop_ids [OF r(2)] d(2) by auto
    next
      case 3
      then show ?thesis using mount_loop_ids [OF r(3)] d(2) by auto
    next
      case 4
      then show ?thesis using missing_loop_ids [OF r(4)] d(2) by auto
    qed
    then show ?thesis unfolding image_loop_member [OF r(1)] .
  qed
  have main: "(service \<in> set (serviceNames mocked) \<and> serviceMember mocked service ''image'' = Inr (Str img) \<and>
      img \<noteq> [] \<and> \<not> (\<exists>name tag digest. image_parts img name tag digest) \<longrightarrow>
        invalidImageName E content service img \<in> set rs) \<and>
     (service \<in> set (serviceNames mocked) \<and> serviceMember mocked service ''image'' = Inr (Str img) \<and>
      (\<exists>name tag digest. image_parts img name tag digest) \<and> imageVersion img = Some ''latest'' \<longrightarrow>
        invalidImageTag E content service ''latest'' \<in> set rs) \<and>
     ((\<forall>s\<in>set (serviceNames mocked). \<forall>i. serviceMember mocked s ''image'' = Inr (Str i) \<longrightarrow>
         (\<exists>name tag digest. image_parts i name tag digest) \<and> imageVersion i \<noteq> Some ''latest'') \<longrightarrow>
        (\<forall>d\<in>set rs. id' d \<noteq> invalid_docker_image_name))"
    using a b c by simp
  show ?thesis
    apply (intro conjI)
    subgoal using main by (rule conjunct1)
    subgoal using main [THEN conjunct2] by (rule conjunct1)
    subgoal using main [THEN conjunct2] by (rule conjunct2)
    subgoal by simp
    subgoal by simp
    subgoal by simp
    subgoal by simp
    subgoal by simp
    subgoal by simp
    subgoal using skip by blast
    subgoal by simp
    subgoal by simp
    subgoal using origin by blast
    done
qed

theorem C3_witness:
  "invalidImageName demoEnv demo_compose ''cache'' ''redis''
     \<in> set (projr (lintDockerComposeYml demoEnv demo_compose [] ''demo'')) \<and>
   invalidImageTag demoEnv demo_compose ''db'' ''latest''
     \<in> set (projr (lintDockerComposeYml demoEnv demo_compose [] ''demo'')) \<and>
   \<not> (\<exists>d\<in>set (projr (lintDockerComposeYml demoEnv demo_good [] ''demo'')). id' d = invalid_docker_image_name) \<and>
   imageCheck demoEnv demo_empty_image (Obj [(''services'', Obj [(''web'', Obj [(''image'', Str [])])])])
     ''web'' [] = Inr []"
proof -
  have ctx: "YAML_parse demoEnv True (mockVariables demoEnv demo_compose) = Inr (demo_services ''/data-dir'')"
    "fst (validate demoEnv (demo_services ''/data-dir''))"
    "YAML_parse demoEnv True demo_compose = Inr (demo_services ''${APP_DATA_DIR}'')"
    "lintDockerComposeYml demoEnv demo_compose [] ''demo'' = Inr (projr (lintDockerComposeYml demoEnv demo_compose [] ''demo''))"
    by code_simp+
  have cache: "''cache'' \<in> set (serviceNames (demo_services ''/data-dir''))"
    "serviceMember (demo_services ''/data-dir'') ''cache'' ''image'' = Inr (Str ''redis'')"
    "''redis'' \<noteq> []" "String_match ''redis'' re_image = None"
    by code_simp+
  have db: "''db'' \<in> set (serviceNames (demo_services ''/data-dir''))"
    "serviceMember (demo_services ''/data-dir'') ''db'' ''image'' = Inr (Str ''registry:5000/img:latest@sha256:abc'')"
    "String_match ''registry:5000/img:latest@sha256:abc'' re_image \<noteq> None"
    "imageVersion ''registry:5000/img:latest@sha256:abc'' = Some ''latest''"
    by code_simp+
  have a: "invalidImageName demoEnv demo_compose ''cache'' ''redis''
     \<in> set (projr (lintDockerComposeYml demoEnv demo_compose [] ''demo''))"
    using C3_image_naming [OF ctx, of "''cache''" "''redis''"] cache
    by (simp add: image_match_None)
  have b: "invalidImageTag demoEnv demo_compose ''db'' ''latest''
     \<in> set (projr (lintDockerComposeYml demoEnv demo_compose [] ''demo''))"
    using C3_image_naming [OF ctx, of "''db''" "''registry:5000/img:latest@sha256:abc''"] db
    by (simp add: image_match_None)
  have good: "YAML_parse demoEnv True (mockVariables demoEnv demo_good) = Inr demo_good_doc"
    "fst (validate demoEnv demo_good_doc)"
    "YAML_parse demoEnv True demo_good = Inr demo_good_doc"
    "lintDockerComposeYml demoEnv demo_good [] ''demo'' = Inr (projr (lintDockerComposeYml demoEnv demo_good [] ''demo''))"
    by code_simp+
  have names: "serviceNames demo_good_doc = [''web'']"
    "serviceMember demo_good_doc ''web'' ''image'' = Inr (Str ''nginx:1.25@sha256:abc'')"
    "String_match ''nginx:1.25@sha256:abc'' re_image \<noteq> None"
    "imageVersion ''nginx:1.25@sha256:abc'' \<noteq> Some ''latest''"
    by code_simp+
  have "\<forall>s\<in>set (serviceNames demo_good_doc). \<forall>i. serviceMember demo_good_doc s ''image'' = Inr (Str i) \<longrightarrow>
         (\<exists>name tag digest. image_parts i name tag digest) \<and> imageVersion i \<noteq> Some ''latest''"
    using names by (simp add: image_match_None)
  then have c: "\<not> (\<exists>d\<in>set (projr (lintDockerComposeYml demoEnv demo_good [] ''demo'')). id' d = invalid_docker_image_name)"
    using C3_image_naming [OF good, of "''web''" "''nginx:1.25@sha256:abc''"] by blast
  have empty: "YAML_parse demoEnv True (mockVariables demoEnv demo_empty_image)
      = Inr (Obj [(''services'', Obj [(''web'', Obj [(''image'', Str [])])])])"
    "fst (validate demoEnv (Obj [(''services'', Obj [(''web'', Obj [(''image'', Str [])])])]))"
    "YAML_parse demoEnv True demo_empty_image = Inr (Obj [(''services'', Obj [(''web'', Obj [(''image'', Str [])])])])"
    "lintDockerComposeYml demoEnv demo_empty_image [] ''demo''
      = Inr (projr (lintDockerComposeYml demoEnv demo_empty_image [] ''demo''))"
    by code_simp+
  have falsy: "serviceMember (Obj [(''services'', Obj [(''web'', Obj [(''image'', Str [])])])]) ''web'' ''image''
      = Inr (Str []) \<and> \<not> truthy (Str [])"
    by code_simp
  have e: "imageCheck demoEnv demo_empty_image (Obj [(''services'', Obj [(''web'', Obj [(''image'', Str [])])])])
     ''web'' [] = Inr []"
    using C3_image_naming [OF empty, where service = "''web''" and imageValue = "Str []" and result = "[]",
        THEN conjunct2, THEN conjunct2, THEN conjunct2, THEN conjunct2, THEN conjunct2, THEN conjunct2,
        THEN conjunct2, THEN conjunct2, THEN conjunct2, THEN conjunct1, THEN mp, OF falsy] .
  show ?thesis using a b c e by (intro conjI)
qed

text \<open>
  C3 as stated fails for an image that is the empty string: line 188 skips the service,
  and no diagnostic is produced although the image does not match the pattern.
\<close>

theorem C3_counterexample:
  "YAML_parse demoEnv True (mockVariables demoEnv demo_empty_image)
     = Inr (Obj [(''services'', Obj [(''web'', Obj [(''image'', Str [])])])]) \<and>
   serviceMember (Obj [(''services'', Obj [(''web'', Obj [(''image'', Str [])])])]) ''web'' ''image'' = Inr (Str []) \<and>
   String_match [] re_image = None \<and>
   lintDockerComposeYml demoEnv demo_empty_image [] ''demo'' = Inr []"
  by code_simp

text \<open>
  C4 (as amended).  The image pattern has greedy components.  It matches exactly the
  strings of the form name:tag@digest (three non-empty components on one line), and the
  components it captures are those with the longest name and, for that name, the longest
  tag; the tag of the latest-tag decision is the second of them.  For
  \<open>registry:5000/img:latest@sha256:abc\<close> the tag is \<open>latest\<close>, and the loop pushes the
  latest-tag warning.
\<close>

theorem C4_image_components_greedy:
  "(String_match img re_image = Some m \<longrightarrow>
      (\<exists>name tag digest. m = [img, name, tag, digest] \<and> image_parts img name tag digest \<and>
         imageVersion img = Some tag \<and>
         (\<forall>name' tag' digest'. image_parts img name' tag' digest' \<longrightarrow>
            length name' < length name \<or> (name' = name \<and> length tag' \<le> length tag)))) \<and>
   (String_match img re_image = None \<longleftrightarrow> \<not> (\<exists>name tag digest. image_parts img name tag digest)) \<and>
   imageVersion ''registry:5000/img:latest@sha256:abc'' = Some ''latest'' \<and>
   (serviceMember doc service ''image'' = Inr (Str ''registry:5000/img:latest@sha256:abc'') \<longrightarrow>
      imageCheck E content doc service result = Inr (result @ [invalidImageTag E content service ''latest'']))"
proof -
  have a: "\<exists>name tag digest. m = [img, name, tag, digest] \<and> image_parts img name tag digest \<and>
         imageVersion img = Some tag \<and>
         (\<forall>name' tag' digest'. image_parts img name' tag' digest' \<longrightarrow>
            length name' < length name \<or> (name' = name \<and> length tag' \<le> length tag))"
    if h: "String_match img re_image = Some m"
  proof -
    from image_match_Some [OF h] obtain n t d where ntd: "m = [img, n, t, d]" "image_parts img n t d"
      "\<forall>n' t' d'. image_parts img n' t' d' \<longrightarrow> length n' < length n \<or> (n' = n \<and> length t' \<le> length t)"
      by blast
    have "imageVersion img = Some t" using h ntd(1) by (simp add: imageVersion_def nth_opt_def)
    then show ?thesis using ntd by blast
  qed
  have v: "imageVersion ''registry:5000/img:latest@sha256:abc'' = Some ''latest''"
    by code_simp
  have c: "imageCheck E content doc service result = Inr (result @ [invalidImageTag E content service ''latest''])"
    if "serviceMember doc service ''image'' = Inr (Str ''registry:5000/img:latest@sha256:abc'')"
  proof -
    have p: "imageCheck E content doc service [] = Inr [invalidImageTag E content service ''latest'']"
      using that v by (intro imageCheck_push_tag) simp_all
    show ?thesis using pushes_Inr [OF pushes_imageCheck p, where s = result] by simp
  qed
  show ?thesis using a image_match_None [of img] v c by blast
qed

theorem C4_witness:
  "(\<exists>name tag digest.
      [''a:b:@c'', ''a'', ''b:'', ''c''] = [''a:b:@c'', name, tag, digest] \<and> image_parts ''a:b:@c'' name tag digest \<and>
      imageVersion ''a:b:@c'' = Some tag) \<and>
   imageCheck demoEnv demo_compose (demo_services ''/data-dir'') ''db'' []
     = Inr [invalidImageTag demoEnv demo_compose ''db'' ''latest'']"
proof -
  have m: "String_match ''a:b:@c'' re_image = Some [''a:b:@c'', ''a'', ''b:'', ''c'']"
    by code_simp
  have s: "serviceMember (demo_services ''/data-dir'') ''db'' ''image'' = Inr (Str ''registry:5000/img:latest@sha256:abc'')"
    by code_simp
  have a: "\<exists>name tag digest.
      [''a:b:@c'', ''a'', ''b:'', ''c''] = [''a:b:@c'', name, tag, digest] \<and> image_parts ''a:b:@c'' name tag digest \<and>
      imageVersion ''a:b:@c'' = Some tag"
    using C4_image_components_greedy [where img = "''a:b:@c''" and m = "[''a:b:@c'', ''a'', ''b:'', ''c'']",
      THEN conjunct1, THEN mp, OF m] by (elim exE conjE) (intro exI conjI)
  have b: "imageCheck demoEnv demo_compose (demo_services ''/data-dir'') ''db'' []
     = Inr [invalidImageTag demoEnv demo_compose ''db'' ''latest'']"
    using C4_image_components_greedy [where result = "[]" and E = demoEnv and content = demo_compose
      and doc = "demo_services ''/data-dir''" and service = "''db''",
      THEN conjunct2, THEN conjunct2, THEN conjunct2, THEN mp, OF s] by simp
  show ?thesis using a b by (rule conjI)
qed

text \<open>
  C4 as stated fails: on \<open>registry:5000/img:latest@sha256:abc\<close> the pattern captures the
  name \<open>registry:5000/img\<close> and the tag \<open>latest\<close>, not \<open>5000/img:latest\<close>.
\<close>

theorem C4_counterexample:
  "String_match ''registry:5000/img:latest@sha256:abc'' re_image
     = Some [''registry:5000/img:latest@sha256:abc'', ''registry:5000/img'', ''latest'', ''sha256:abc''] \<and>
   imageVersion ''registry:5000/img:latest@sha256:abc'' = Some ''latest'' \<and>
   imageVersion ''registry:5000/img:latest@sha256:abc'' \<noteq> Some ''5000/img:latest''"
  by code_simp

text \<open>
  C5.  When both texts parse, the mocked document is schema-valid and the validator
  returns, the diagnostics with id \<open>invalid_yaml_boolean_value\<close> are, in order, one error
  for each entry with a native boolean value of each mapping-form property
  (environment, labels, extra hosts) of each service, and the properties path of each
  names the service, the property and the key.  A string array has no such entry, and
  neither has a key whose value is the string \<open>true\<close>.
\<close>

theorem C5_bare_booleans:
  assumes "YAML_parse E True (mockVariables E content) = Inr mocked" "fst (validate E mocked)"
    "YAML_parse E True content = Inr doc" "lintDockerComposeYml E content files appId = Inr rs"
  shows
    "filter (\<lambda>d. id' d = invalid_yaml_boolean_value) rs
       = concat (map (booleanDiagnostics E content mocked) (serviceNames mocked)) \<and>
     (service \<in> set (serviceNames mocked) \<and> label \<in> set [''environment'', ''labels'', ''extra_hosts''] \<and>
      serviceMember mocked service label = Inr (Obj kvs) \<and> (key, Bool b) \<in> set kvs \<longrightarrow>
        invalidBooleanValue E content service label key (Bool b) \<in> set rs) \<and>
     bareBooleanEntries (Obj kvs) = filter (\<lambda>entry. \<exists>b. snd entry = Bool b) kvs \<and>
     bareBooleanEntries (Arr (map Str xs)) = [] \<and>
     (key, Str s) \<notin> set (bareBooleanEntries v) \<and>
     id' (invalidBooleanValue E content service label key value) = invalid_yaml_boolean_value \<and>
     severity (invalidBooleanValue E content service label key value) = error \<and>
     propertiesPath (invalidBooleanValue E content service label key value)
       = Some (''services.'' @ service @ ''.'' @ label @ ''.'' @ key)"
proof -
  from compose_result [OF assms] obtain r1 r2 r3 r4 where r:
    "forOf (serviceNames mocked) (imageCheck E content mocked) [] = Inr r1"
    "forOf (serviceNames mocked) (booleanCheck E content mocked) [] = Inr r2"
    "forOf (serviceNames doc) (directMountCheck E content doc) [] = Inr r3"
    "forOf (serviceNames doc) (missingFileCheck E content files appId doc) [] = Inr r4"
    "rs = r1 @ r2 @ r3 @ r4"
    by blast
  have f1: "filter (\<lambda>d. id' d = invalid_yaml_boolean_value) r1 = []"
    using image_loop_ids [OF r(1)] by (auto simp: filter_empty_conv)
  have f2: "filter (\<lambda>d. id' d = invalid_yaml_boolean_value) r2 = r2"
    using boolean_loop_ids [OF r(2)] by (auto simp: filter_id_conv)
  have f3: "filter (\<lambda>d. id' d = invalid_yaml_boolean_value) r3 = []"
    using mount_loop_ids [OF r(3)] by (auto simp: filter_empty_conv)
  have f4: "filter (\<lambda>d. id' d = invalid_yaml_boolean_value) r4 = []"
    using missing_loop_ids [OF r(4)] by (auto simp: filter_empty_conv)
  have r2: "r2 = concat (map (booleanDiagnostics E content mocked) (serviceNames mocked))"
    by (rule boolean_loop_result [OF r(2)])
  have a: "filter (\<lambda>d. id' d = invalid_yaml_boolean_value) rs
       = concat (map (booleanDiagnostics E content mocked) (serviceNames mocked))"
    using r(5) f1 f2 f3 f4 r2 by simp
  have isbool: "typeof x = ''boolean'' \<longleftrightarrow> (\<exists>b. x = Bool b)" for x
    by (cases x) simp_all
  have b: "invalidBooleanValue E content service label key (Bool b) \<in> set rs"
    if h: "service \<in> set (serviceNames mocked)" "label \<in> set [''environment'', ''labels'', ''extra_hosts'']"
      "serviceMember mocked service label = Inr (Obj kvs)" "(key, Bool b) \<in> set kvs"
  proof -
    have "(key, Bool b) \<in> set (bareBooleanEntries (Obj kvs))"
      using h(4) by (simp add: bareBooleanEntries_def)
    then have m: "invalidBooleanValue E content service label key (Bool b)
        \<in> set (map (\<lambda>entry. invalidBooleanValue E content service label (fst entry) (snd entry))
            (bareBooleanEntries (Obj kvs)))"
      by (metis (mono_tags, lifting) fst_conv snd_conv image_eqI list.set_map)
    consider "label = ''environment''" | "label = ''labels''" | "label = ''extra_hosts''"
      using h(2) by auto
    then have "invalidBooleanValue E content service label key (Bool b)
        \<in> set (booleanDiagnostics E content mocked service)"
    proof cases
      case 1
      then show ?thesis using m h(3) unfolding booleanDiagnostics_def by simp
    next
      case 2
      then show ?thesis using m h(3) unfolding booleanDiagnostics_def by simp
    next
      case 3
      then show ?thesis using m h(3) unfolding booleanDiagnostics_def by simp
    qed
    then have "invalidBooleanValue E content service label key (Bool b) \<in> set r2"
      using r2 h(1) by auto
    then show ?thesis using r(5) by simp
  qed
  have c: "bareBooleanEntries (Obj kvs) = filter (\<lambda>entry. \<exists>b. snd entry = Bool b) kvs"
    by (simp add: bareBooleanEntries_def isbool)
  have d: "bareBooleanEntries (Arr (map Str xs)) = []"
    by (auto simp: bareBooleanEntries_def filter_empty_conv dest!: set_zip_rightD)
  have e: "(key, Str s) \<notin> set (bareBooleanEntries v)"
    by (simp add: bareBooleanEntries_def)
  show ?thesis using a b c d e by simp
qed

theorem C5_witness:
  "filter (\<lambda>d. id' d = invalid_yaml_boolean_value) (projr (lintDockerComposeYml demoEnv demo_compose [] ''demo''))
     = [invalidBooleanValue demoEnv demo_compose ''web'' ''environment'' ''DEBUG'' (Bool True)] \<and>
   invalidBooleanValue demoEnv demo_compose ''web'' ''environment'' ''DEBUG'' (Bool True)
     \<in> set (projr (lintDockerComposeYml demoEnv demo_compose [] ''demo''))"
proof -
  have ctx: "YAML_parse demoEnv True (mockVariables demoEnv demo_compose) = Inr (demo_services ''/data-dir'')"
    "fst (validate demoEnv (demo_services ''/data-dir''))"
    "YAML_parse demoEnv True demo_compose = Inr (demo_services ''${APP_DATA_DIR}'')"
    "lintDockerComposeYml demoEnv demo_compose [] ''demo'' = Inr (projr (lintDockerComposeYml demoEnv demo_compose [] ''demo''))"
    by code_simp+
  have ev: "concat (map (booleanDiagnostics demoEnv demo_compose (demo_services ''/data-dir''))
        (serviceNames (demo_services ''/data-dir'')))
      = [invalidBooleanValue demoEnv demo_compose ''web'' ''environment'' ''DEBUG'' (Bool True)]"
    by code_simp
  have h: "''web'' \<in> set (serviceNames (demo_services ''/data-dir''))"
    "''environment'' \<in> set [''environment'', ''labels'', ''extra_hosts'']"
    "serviceMember (demo_services ''/data-dir'') ''web'' ''environment''
       = Inr (Obj [(''DEBUG'', Bool True), (''MODE'', Str ''true'')])"
    "(''DEBUG'', Bool True) \<in> set [(''DEBUG'', Bool True), (''MODE'', Str ''true'')]"
    by code_simp+
  note t = C5_bare_booleans [OF ctx, where service = "''web''" and label = "''environment''"
      and kvs = "[(''DEBUG'', Bool True), (''MODE'', Str ''true'')]" and key = "''DEBUG''" and b = True]
  have a: "filter (\<lambda>d. id' d = invalid_yaml_boolean_value) (projr (lintDockerComposeYml demoEnv demo_compose [] ''demo''))
     = [invalidBooleanValue demoEnv demo_compose ''web'' ''environment'' ''DEBUG'' (Bool True)]"
    using t [THEN conjunct1] ev by simp
  have b: "invalidBooleanValue demoEnv demo_compose ''web'' ''environment'' ''DEBUG'' (Bool True)
     \<in> set (projr (lintDockerComposeYml demoEnv demo_compose [] ''demo''))"
    using t [THEN conjunct2, THEN conjunct1] h by blast
  show ?thesis using a b by (rule conjI)
qed

text \<open>
  C6 (as amended).  When both texts parse, the mocked document is schema-valid and the
  validator returns: a string entry of a service's volume array gets the warning with
  id \<open>invalid_app_data_dir_volume_mount\<close> exactly when the placeholder, each brace
  optional, occurs somewhere in it directly followed by a colon or by a slash and a
  colon; an object entry with a string source and a target pushes it exactly when the
  source ends with the placeholder or with the placeholder and a slash; an object entry
  without a target pushes nothing.  So an entry whose source is the placeholder, braced
  or not, with or without a trailing slash, gets the warning, and an entry whose source
  continues with a subpath gets it exactly when the text after the placeholder and the
  slash is itself such a text: \<open>${APP_DATA_DIR}/sub:/data\<close> gets none,
  \<open>${APP_DATA_DIR}/sub/$APP_DATA_DIR:/data\<close> gets one.  Every diagnostic of the result
  with that id is the one diagnostic pushed for some entry of some service's volume
  array.
\<close>

theorem C6_direct_mount_warning:
  assumes "YAML_parse E True (mockVariables E content) = Inr mocked" "fst (validate E mocked)"
    "YAML_parse E True content = Inr doc" "lintDockerComposeYml E content files appId = Inr rs"
    "service \<in> set (serviceNames doc)" "serviceVolumes doc service = Inr (Arr volumes)"
  shows
    "(Str v \<in> set volumes \<longrightarrow>
        (invalidDirectMount E content service v (stringMountHint v) \<in> set rs \<longleftrightarrow> directMountText v)) \<and>
     (Obj kvs \<in> set volumes \<and> map_of kvs ''source'' = Some (Str src) \<and> map_of kvs ''target'' = Some t \<and>
      directMountSource src \<longrightarrow>
        invalidDirectMount E content service (src @ '':'' @ ToString (Number_toString E) t)
          (objectMountHint E t) \<in> set rs) \<and>
     directMountVolume E content service (Str v) result =
       (if directMountText v
        then Inr (result @ [invalidDirectMount E content service v (stringMountHint v)])
        else Inr result) \<and>
     (map_of kvs ''source'' = Some (Str src) \<and> map_of kvs ''target'' = Some t \<longrightarrow>
        directMountVolume E content service (Obj kvs) result =
          (if directMountSource src
           then Inr (result @ [invalidDirectMount E content service
              (src @ '':'' @ ToString (Number_toString E) t) (objectMountHint E t)])
           else Inr result)) \<and>
     (''target'' \<notin> fst ` set kvs \<longrightarrow> directMountVolume E content service (Obj kvs) result = Inr result) \<and>
     (d \<in> set rs \<and> id' d = invalid_app_data_dir_volume_mount \<longleftrightarrow>
        (\<exists>service\<in>set (serviceNames doc). \<exists>vols. serviceVolumes doc service = Inr (Arr vols) \<and>
           (\<exists>volume\<in>set vols. directMountVolume E content service volume [] = Inr [d]))) \<and>
     (placeholder ph \<and> (mnt = ph \<or> mnt = ph @ ''/'') \<longrightarrow>
        directMountText (mnt @ '':'' @ target) \<and> directMountSource mnt) \<and>
     (placeholder ph \<and> sub \<noteq> [] \<and> hd sub \<noteq> CHR '':'' \<longrightarrow>
        (directMountText (ph @ ''/'' @ sub @ rest) \<longleftrightarrow> directMountText (sub @ rest))) \<and>
     (placeholder ph \<and> sub \<noteq> [] \<longrightarrow>
        (directMountSource (ph @ ''/'' @ sub) \<longleftrightarrow> directMountSource sub)) \<and>
     \<not> directMountText ''${APP_DATA_DIR}/sub:/data'' \<and>
     directMountText ''${APP_DATA_DIR}/sub/$APP_DATA_DIR:/data'' \<and>
     id' (invalidDirectMount E content service shown hint) = invalid_app_data_dir_volume_mount \<and>
     severity (invalidDirectMount E content service shown hint) = warning"
proof -
  note ctx = assms(1-4)
  have string: "invalidDirectMount E content service v (stringMountHint v) \<in> set rs \<longleftrightarrow> directMountText v"
    if v: "Str v \<in> set volumes"
  proof
    assume "invalidDirectMount E content service v (stringMountHint v) \<in> set rs"
    then show "directMountText v" by (rule compose_mount_shown [OF ctx])
  next
    assume "directMountText v"
    then have "directMountVolume E content service (Str v) []
        = Inr [invalidDirectMount E content service v (stringMountHint v)]"
      unfolding directMountVolume_string by simp
    then show "invalidDirectMount E content service v (stringMountHint v) \<in> set rs"
      by (rule compose_mount_member [OF ctx assms(5) assms(6) v])
  qed
  have object: "invalidDirectMount E content service (src @ '':'' @ ToString (Number_toString E) t)
          (objectMountHint E t) \<in> set rs"
    if v: "Obj kvs \<in> set volumes" "map_of kvs ''source'' = Some (Str src)"
      "map_of kvs ''target'' = Some t" "directMountSource src"
  proof -
    have "directMountVolume E content service (Obj kvs) []
        = Inr [invalidDirectMount E content service (src @ '':'' @ ToString (Number_toString E) t)
            (objectMountHint E t)]"
      unfolding directMountVolume_source [OF v(2) v(3)] using v(4) by simp
    then show ?thesis by (rule compose_mount_member [OF ctx assms(5) assms(6) v(1)])
  qed
  have entry: "directMountVolume E content service (Obj kvs) result =
          (if directMountSource src
           then Inr (result @ [invalidDirectMount E content service
              (src @ '':'' @ ToString (Number_toString E) t) (objectMountHint E t)])
           else Inr result)"
    if "map_of kvs ''source'' = Some (Str src)" "map_of kvs ''target'' = Some t"
    using that by (rule directMountVolume_source)
  have bare: "directMountVolume E content service (Obj kvs) result = Inr result"
    if "''target'' \<notin> fst ` set kvs"
    using that by (rule volume_without_target)
  have root: "directMountText (mnt @ '':'' @ target) \<and> directMountSource mnt"
    if "placeholder ph" "mnt = ph \<or> mnt = ph @ ''/''"
    using directMountText_root [OF that] by (rule conjI)
  have subpath: "directMountText (ph @ ''/'' @ sub @ rest) \<longleftrightarrow> directMountText (sub @ rest)"
    if "placeholder ph" "sub \<noteq> []" "hd sub \<noteq> CHR '':''"
    using that by (rule directMountText_subpath)
  have source: "directMountSource (ph @ ''/'' @ sub) \<longleftrightarrow> directMountSource sub"
    if "placeholder ph" "sub \<noteq> []"
    using that by (rule directMountSource_subpath)
  have examples: "\<not> directMountText ''${APP_DATA_DIR}/sub:/data''"
    "directMountText ''${APP_DATA_DIR}/sub/$APP_DATA_DIR:/data''"
    by code_simp+
  note origin = compose_mount_origin [OF ctx, of d]
  show ?thesis
    apply (intro conjI impI)
    subgoal by (rule string)
    subgoal using object by blast
    subgoal by (rule directMountVolume_string)
    subgoal using entry by blast
    subgoal by (rule bare)
    subgoal by (rule origin)
    subgoal using root by blast
    subgoal using root by blast
    subgoal using subpath by blast
    subgoal using source by blast
    subgoal by (rule examples)
    subgoal by (rule examples)
    subgoal by simp
    subgoal by simp
    done
qed

theorem C6_witness:
  "invalidDirectMount demoEnv demo_compose ''web'' ''${APP_DATA_DIR}:/data''
      (stringMountHint ''${APP_DATA_DIR}:/data'')
     \<in> set (projr (lintDockerComposeYml demoEnv demo_compose [] ''demo'')) \<and>
   invalidDirectMount demoEnv demo_compose ''web'' ''${APP_DATA_DIR}/sub:/data''
      (stringMountHint ''${APP_DATA_DIR}/sub:/data'')
     \<notin> set (projr (lintDockerComposeYml demoEnv demo_compose [] ''demo'')) \<and>
   invalidDirectMount demoEnv demo_compose ''web'' ''${APP_DATA_DIR}/:/x'' (objectMountHint demoEnv (Str ''/x''))
     \<in> set (projr (lintDockerComposeYml demoEnv demo_compose [] ''demo'')) \<and>
   directMountVolume demoEnv demo_compose ''web'' (Str ''${APP_DATA_DIR}/sub:/data'') [] = Inr [] \<and>
   directMountVolume demoEnv demo_compose ''web''
     (Obj [(''type'', Str ''bind''), (''source'', Str ''${APP_DATA_DIR}'')]) [] = Inr []"
proof -
  let ?vols = "[Str ''${APP_DATA_DIR}:/data'', Str ''${APP_DATA_DIR}/sub:/data'',
     Obj [(''source'', Str ''${APP_DATA_DIR}/''), (''target'', Str ''/x'')]]"
  have ctx: "YAML_parse demoEnv True (mockVariables demoEnv demo_compose) = Inr (demo_services ''/data-dir'')"
    "fst (validate demoEnv (demo_services ''/data-dir''))"
    "YAML_parse demoEnv True demo_compose = Inr (demo_services ''${APP_DATA_DIR}'')"
    "lintDockerComposeYml demoEnv demo_compose [] ''demo'' = Inr (projr (lintDockerComposeYml demoEnv demo_compose [] ''demo''))"
    "''web'' \<in> set (serviceNames (demo_services ''${APP_DATA_DIR}''))"
    "serviceVolumes (demo_services ''${APP_DATA_DIR}'') ''web'' = Inr (Arr ?vols)"
    by code_simp+
  have shape: "directMountText ''${APP_DATA_DIR}:/data''" "\<not> directMountText ''${APP_DATA_DIR}/sub:/data''"
    "directMountSource ''${APP_DATA_DIR}/''"
    by code_simp+
  have a: "invalidDirectMount demoEnv demo_compose ''web'' ''${APP_DATA_DIR}:/data''
      (stringMountHint ''${APP_DATA_DIR}:/data'')
     \<in> set (projr (lintDockerComposeYml demoEnv demo_compose [] ''demo''))"
    using C6_direct_mount_warning [OF ctx, where v = "''${APP_DATA_DIR}:/data''", THEN conjunct1] shape(1)
    by simp
  have b: "invalidDirectMount demoEnv demo_compose ''web'' ''${APP_DATA_DIR}/sub:/data''
      (stringMountHint ''${APP_DATA_DIR}/sub:/data'')
     \<notin> set (projr (lintDockerComposeYml demoEnv demo_compose [] ''demo''))"
    using C6_direct_mount_warning [OF ctx, where v = "''${APP_DATA_DIR}/sub:/data''", THEN conjunct1] shape(2)
    by simp
  have c: "invalidDirectMount demoEnv demo_compose ''web'' ''${APP_DATA_DIR}/:/x'' (objectMountHint demoEnv (Str ''/x''))
     \<in> set (projr (lintDockerComposeYml demoEnv demo_compose [] ''demo''))"
    using C6_direct_mount_warning [OF ctx, where src = "''${APP_DATA_DIR}/''" and t = "Str ''/x''"
        and kvs = "[(''source'', Str ''${APP_DATA_DIR}/''), (''target'', Str ''/x'')]",
        THEN conjunct2, THEN conjunct1] shape(3)
    by simp
  have d: "directMountVolume demoEnv demo_compose ''web'' (Str ''${APP_DATA_DIR}/sub:/data'') [] = Inr []"
    using C6_direct_mount_warning [OF ctx, where v = "''${APP_DATA_DIR}/sub:/data''" and result = "[]",
        THEN conjunct2, THEN conjunct2, THEN conjunct1] shape(2)
    by simp
  have e: "directMountVolume demoEnv demo_compose ''web''
     (Obj [(''type'', Str ''bind''), (''source'', Str ''${APP_DATA_DIR}'')]) [] = Inr []"
    using C6_direct_mount_warning [OF ctx,
        where kvs = "[(''type'', Str ''bind''), (''source'', Str ''${APP_DATA_DIR}'')]" and result = "[]",
        THEN conjunct2, THEN conjunct2, THEN conjunct2, THEN conjunct2, THEN conjunct1]
    by simp
  show ?thesis using a b c d e by (intro conjI)
qed

text \<open>
  C6 as stated fails for a source with a subpath that ends in the placeholder: the
  pattern of line 289 is not anchored and finds the second occurrence, directly before
  the colon.
\<close>

theorem C6_counterexample:
  "YAML_parse demoEnv True demo_nested = Inr (demo_volume_doc (Str ''${APP_DATA_DIR}/sub/$APP_DATA_DIR:/data'')) \<and>
   serviceVolumes (demo_volume_doc (Str ''${APP_DATA_DIR}/sub/$APP_DATA_DIR:/data'')) ''web''
     = Inr (Arr [Str ''${APP_DATA_DIR}/sub/$APP_DATA_DIR:/data'']) \<and>
   lintDockerComposeYml demoEnv demo_nested [''demo/sub/$APP_DATA_DIR''] ''demo''
     = Inr [invalidDirectMount demoEnv demo_nested ''web'' ''${APP_DATA_DIR}/sub/$APP_DATA_DIR:/data''
         (stringMountHint ''${APP_DATA_DIR}/sub/$APP_DATA_DIR:/data'')]"
  by code_simp

text \<open>
  C7 (as amended).  When both texts parse, the mocked document is schema-valid and the
  validator returns: for a string entry of a service's volume array whose source, the
  text before the first colon, is the placeholder, a slash and a non-empty subpath
  without line terminators, and for an object entry with such a source and a target,
  the error with id \<open>missing_file_or_directory\<close> for that entry is in the result
  exactly when the app id, a slash and the subpath are not among the files.  No
  diagnostic of the result names a path that is among the files, so a run with the path
  added to the files has no diagnostic naming it.  An object entry without a target
  pushes nothing, whatever its source and the files.  A subpath that holds a line
  terminator is not captured: such an entry, when it holds no dollar sign after the
  placeholder, pushes nothing.
\<close>

theorem C7_missing_file:
  assumes "YAML_parse E True (mockVariables E content) = Inr mocked" "fst (validate E mocked)"
    "YAML_parse E True content = Inr doc" "lintDockerComposeYml E content files appId = Inr rs"
    "service \<in> set (serviceNames doc)" "serviceVolumes doc service = Inr (Arr volumes)"
    "placeholder ph" "sub \<noteq> []" "\<forall>c\<in>set sub. \<not> LineTerminator c"
  shows
    "(Str (ph @ ''/'' @ sub @ '':'' @ target) \<in> set volumes \<and> CHR '':'' \<notin> set sub \<longrightarrow>
        (missingFileOrDirectory E content appId service sub (ph @ ''/'' @ sub @ '':'' @ target) \<in> set rs
           \<longleftrightarrow> appId @ ''/'' @ sub \<notin> set files)) \<and>
     (Obj kvs \<in> set volumes \<and> map_of kvs ''source'' = Some (Str (ph @ ''/'' @ sub)) \<and>
      map_of kvs ''target'' = Some t \<longrightarrow>
        (missingFileOrDirectory E content appId service sub
           ((ph @ ''/'' @ sub) @ '':'' @ ToString (Number_toString E) t) \<in> set rs
           \<longleftrightarrow> appId @ ''/'' @ sub \<notin> set files)) \<and>
     (d \<in> set rs \<and> id' d = missing_file_or_directory \<and>
      title d = title (missingFileOrDirectory E content appId service sub shown) \<longrightarrow>
        appId @ ''/'' @ sub \<notin> set files) \<and>
     (lintDockerComposeYml E content ((appId @ ''/'' @ sub) # files) appId = Inr rs' \<longrightarrow>
        \<not> (\<exists>d'\<in>set rs'. id' d' = missing_file_or_directory \<and>
              title d' = title (missingFileOrDirectory E content appId service sub shown))) \<and>
     id' (missingFileOrDirectory E content appId service sub shown) = missing_file_or_directory \<and>
     severity (missingFileOrDirectory E content appId service sub shown) = error \<and>
     title (missingFileOrDirectory E content appId service sub shown)
       = ''Missing file/directory '' @ [CHR 0x22] @ appId @ ''/'' @ sub @ [CHR 0x22] \<and>
     (CHR '':'' \<notin> set sub \<longrightarrow>
        missingFileVolume E content files appId service (Str (ph @ ''/'' @ sub @ '':'' @ target)) result =
          (if appId @ ''/'' @ sub \<notin> set files
           then Inr (result @ [missingFileOrDirectory E content appId service sub
              (ph @ ''/'' @ sub @ '':'' @ target)])
           else Inr result)) \<and>
     (map_of kvs ''source'' = Some (Str (ph @ ''/'' @ sub)) \<and> map_of kvs ''target'' = Some t \<longrightarrow>
        missingFileVolume E content files appId service (Obj kvs) result =
          (if appId @ ''/'' @ sub \<notin> set files
           then Inr (result @ [missingFileOrDirectory E content appId service sub
              ((ph @ ''/'' @ sub) @ '':'' @ ToString (Number_toString E) t)])
           else Inr result)) \<and>
     (''target'' \<notin> fst ` set kvs' \<longrightarrow>
        missingFileVolume E content files appId service (Obj kvs') result = Inr result) \<and>
     (CHR '':'' \<notin> set broken \<and> (\<exists>c\<in>set broken. LineTerminator c) \<and>
      CHR ''$'' \<notin> set (broken @ target) \<longrightarrow>
        missingFileVolume E content files appId service (Str (ph @ ''/'' @ broken @ '':'' @ target)) result
          = Inr result) \<and>
     ((\<exists>c\<in>set broken. LineTerminator c) \<and> CHR ''$'' \<notin> set broken \<and>
      map_of kvs' ''source'' = Some (Str (ph @ ''/'' @ broken)) \<and> map_of kvs' ''target'' = Some t' \<longrightarrow>
        missingFileVolume E content files appId service (Obj kvs') result = Inr result)"
proof -
  note ctx = assms(1-4)
  have named: "appId @ ''/'' @ sub \<notin> set fs"
    if "lintDockerComposeYml E content fs appId = Inr r" "x \<in> set r" "id' x = missing_file_or_directory"
      "title x = title (missingFileOrDirectory E content appId service sub sh)" for fs r x sh
  proof -
    from missing_title_names_path [OF assms(1-3) that(1-3), of service sh]
    obtain match where m: "appId @ ''/'' @ match \<notin> set fs"
      "title x = title (missingFileOrDirectory E content appId service match sh)"
      by blast
    from m(2) that(4) have "match = sub" using missing_title_inject by metis
    then show ?thesis using m(1) by simp
  qed
  have string: "missingFileOrDirectory E content appId service sub (ph @ ''/'' @ sub @ '':'' @ target) \<in> set rs
           \<longleftrightarrow> appId @ ''/'' @ sub \<notin> set files"
    if v: "Str (ph @ ''/'' @ sub @ '':'' @ target) \<in> set volumes" "CHR '':'' \<notin> set sub"
  proof
    assume "missingFileOrDirectory E content appId service sub (ph @ ''/'' @ sub @ '':'' @ target) \<in> set rs"
    then show "appId @ ''/'' @ sub \<notin> set files"
      using named [OF assms(4), where sh = "ph @ ''/'' @ sub @ '':'' @ target"] by simp
  next
    assume "appId @ ''/'' @ sub \<notin> set files"
    then have "missingFileVolume E content files appId service (Str (ph @ ''/'' @ sub @ '':'' @ target)) []
       = Inr [missingFileOrDirectory E content appId service sub (ph @ ''/'' @ sub @ '':'' @ target)]"
      using missingFileVolume_string_subpath [OF assms(7) assms(8) assms(9) v(2), of E content files appId service target "[]"]
      by simp
    then show "missingFileOrDirectory E content appId service sub (ph @ ''/'' @ sub @ '':'' @ target) \<in> set rs"
      by (rule compose_missing_member [OF ctx assms(5) assms(6) v(1)])
  qed
  have object: "missingFileOrDirectory E content appId service sub
           ((ph @ ''/'' @ sub) @ '':'' @ ToString (Number_toString E) t) \<in> set rs
           \<longleftrightarrow> appId @ ''/'' @ sub \<notin> set files"
    if v: "Obj kvs \<in> set volumes" "map_of kvs ''source'' = Some (Str (ph @ ''/'' @ sub))"
      "map_of kvs ''target'' = Some t"
  proof
    assume "missingFileOrDirectory E content appId service sub
           ((ph @ ''/'' @ sub) @ '':'' @ ToString (Number_toString E) t) \<in> set rs"
    then show "appId @ ''/'' @ sub \<notin> set files"
      using named [OF assms(4), where sh = "(ph @ ''/'' @ sub) @ '':'' @ ToString (Number_toString E) t"]
      by simp
  next
    assume "appId @ ''/'' @ sub \<notin> set files"
    then have "missingFileVolume E content files appId service (Obj kvs) []
       = Inr [missingFileOrDirectory E content appId service sub
           ((ph @ ''/'' @ sub) @ '':'' @ ToString (Number_toString E) t)]"
      using missingFileVolume_object_subpath [OF assms(7) assms(8) assms(9) v(2) v(3), of E content files appId service "[]"]
      by simp
    then show "missingFileOrDirectory E content appId service sub
           ((ph @ ''/'' @ sub) @ '':'' @ ToString (Number_toString E) t) \<in> set rs"
      by (rule compose_missing_member [OF ctx assms(5) assms(6) v(1)])
  qed
  have added: "\<not> (\<exists>d'\<in>set rs'. id' d' = missing_file_or_directory \<and>
              title d' = title (missingFileOrDirectory E content appId service sub shown))"
    if "lintDockerComposeYml E content ((appId @ ''/'' @ sub) # files) appId = Inr rs'"
    using named [OF that] by auto
  have entry: "missingFileVolume E content files appId service (Obj kvs) result =
          (if appId @ ''/'' @ sub \<notin> set files
           then Inr (result @ [missingFileOrDirectory E content appId service sub
              ((ph @ ''/'' @ sub) @ '':'' @ ToString (Number_toString E) t)])
           else Inr result)"
    if "map_of kvs ''source'' = Some (Str (ph @ ''/'' @ sub))" "map_of kvs ''target'' = Some t"
    using that by (rule missingFileVolume_object_subpath [OF assms(7) assms(8) assms(9)])
  have broken_string: "missingFileVolume E content files appId service
        (Str (ph @ ''/'' @ broken @ '':'' @ target)) result = Inr result"
    if "CHR '':'' \<notin> set broken" "\<exists>c\<in>set broken. LineTerminator c"
      "CHR ''$'' \<notin> set (broken @ target)"
    using that by (rule missingFileVolume_string_broken [OF assms(7)])
  have broken_object: "missingFileVolume E content files appId service (Obj kvs') result = Inr result"
    if "\<exists>c\<in>set broken. LineTerminator c" "CHR ''$'' \<notin> set broken"
      "map_of kvs' ''source'' = Some (Str (ph @ ''/'' @ broken))" "map_of kvs' ''target'' = Some t'"
    using that by (rule missingFileVolume_object_broken [OF assms(7)])
  show ?thesis
    apply (intro conjI impI)
    subgoal using string by blast
    subgoal using object by blast
    subgoal using named [OF assms(4)] by blast
    subgoal using added by blast
    subgoal by simp
    subgoal by simp
    subgoal by (simp add: missingFileOrDirectory_title)
    subgoal by (rule missingFileVolume_string_subpath [OF assms(7) assms(8) assms(9)])
    subgoal using entry by blast
    subgoal by (rule volume_without_target)
    subgoal using broken_string by blast
    subgoal using broken_object by blast
    done
qed

theorem C7_witness:
  "missingFileOrDirectory demoEnv demo_compose ''demo'' ''web'' ''sub'' ''${APP_DATA_DIR}/sub:/data''
     \<in> set (projr (lintDockerComposeYml demoEnv demo_compose [] ''demo'')) \<and>
   missingFileOrDirectory demoEnv demo_compose ''demo'' ''web'' ''sub'' ''${APP_DATA_DIR}/sub:/data''
     \<notin> set (projr (lintDockerComposeYml demoEnv demo_compose [''demo/sub''] ''demo'')) \<and>
   missingFileVolume demoEnv demo_compose [] ''demo'' ''web''
     (Obj [(''type'', Str ''bind''), (''source'', Str ''${APP_DATA_DIR}/sub'')]) [] = Inr [] \<and>
   missingFileVolume demoEnv demo_compose [] ''demo'' ''web''
     (Str (''${APP_DATA_DIR}'' @ ''/'' @ (''a'' @ [CHR 0x0A] @ ''b'') @ '':'' @ ''/data'')) [] = Inr []"
proof -
  let ?vols = "[Str ''${APP_DATA_DIR}:/data'', Str ''${APP_DATA_DIR}/sub:/data'',
     Obj [(''source'', Str ''${APP_DATA_DIR}/''), (''target'', Str ''/x'')]]"
  have ctx: "YAML_parse demoEnv True (mockVariables demoEnv demo_compose) = Inr (demo_services ''/data-dir'')"
    "fst (validate demoEnv (demo_services ''/data-dir''))"
    "YAML_parse demoEnv True demo_compose = Inr (demo_services ''${APP_DATA_DIR}'')"
    by code_simp+
  have run: "lintDockerComposeYml demoEnv demo_compose [] ''demo'' = Inr (projr (lintDockerComposeYml demoEnv demo_compose [] ''demo''))"
    "lintDockerComposeYml demoEnv demo_compose [''demo/sub''] ''demo'' = Inr (projr (lintDockerComposeYml demoEnv demo_compose [''demo/sub''] ''demo''))"
    by code_simp+
  have entry: "''web'' \<in> set (serviceNames (demo_services ''${APP_DATA_DIR}''))"
    "serviceVolumes (demo_services ''${APP_DATA_DIR}'') ''web'' = Inr (Arr ?vols)"
    "placeholder ''${APP_DATA_DIR}''" "''sub'' \<noteq> []" "\<forall>c\<in>set ''sub''. \<not> LineTerminator c"
    by code_simp+
  have a: "missingFileOrDirectory demoEnv demo_compose ''demo'' ''web'' ''sub'' ''${APP_DATA_DIR}/sub:/data''
     \<in> set (projr (lintDockerComposeYml demoEnv demo_compose [] ''demo''))"
    using C7_missing_file [OF ctx run(1) entry, where target = "''/data''", THEN conjunct1]
    by simp
  have b: "missingFileOrDirectory demoEnv demo_compose ''demo'' ''web'' ''sub'' ''${APP_DATA_DIR}/sub:/data''
     \<notin> set (projr (lintDockerComposeYml demoEnv demo_compose [''demo/sub''] ''demo''))"
    using C7_missing_file [OF ctx run(2) entry, where target = "''/data''", THEN conjunct1]
    by simp
  note rest = C7_missing_file [OF ctx run(1) entry, where result = "[]" and target = "''/data''"
      and kvs' = "[(''type'', Str ''bind''), (''source'', Str ''${APP_DATA_DIR}/sub'')]"
      and broken = "''a'' @ [CHR 0x0A] @ ''b''",
      THEN conjunct2, THEN conjunct2, THEN conjunct2, THEN conjunct2, THEN conjunct2, THEN conjunct2,
      THEN conjunct2, THEN conjunct2, THEN conjunct2]
  have c: "missingFileVolume demoEnv demo_compose [] ''demo'' ''web''
     (Obj [(''type'', Str ''bind''), (''source'', Str ''${APP_DATA_DIR}/sub'')]) [] = Inr []"
    using rest [THEN conjunct1] by simp
  have broken: "CHR '':'' \<notin> set (''a'' @ [CHR 0x0A] @ ''b'') \<and>
      (\<exists>c\<in>set (''a'' @ [CHR 0x0A] @ ''b''). LineTerminator c) \<and>
      CHR ''$'' \<notin> set ((''a'' @ [CHR 0x0A] @ ''b'') @ ''/data'')"
    by code_simp
  have d: "missingFileVolume demoEnv demo_compose [] ''demo'' ''web''
     (Str (''${APP_DATA_DIR}'' @ ''/'' @ (''a'' @ [CHR 0x0A] @ ''b'') @ '':'' @ ''/data'')) [] = Inr []"
    using rest [THEN conjunct2, THEN conjunct1, THEN mp, OF broken] .
  show ?thesis using a b c d by (intro conjI)
qed

text \<open>
  C7 as stated fails for an object entry without a target: lines 346 to 350 examine an
  object entry only when it has both keys, so no diagnostic is produced although the path
  is not among the files.
\<close>

theorem C7_counterexample:
  "YAML_parse demoEnv True demo_no_target
     = Inr (demo_volume_doc (Obj [(''type'', Str ''bind''), (''source'', Str ''${APP_DATA_DIR}/sub'')])) \<and>
   serviceVolumes (demo_volume_doc (Obj [(''type'', Str ''bind''), (''source'', Str ''${APP_DATA_DIR}/sub'')])) ''web''
     = Inr (Arr [Obj [(''type'', Str ''bind''), (''source'', Str ''${APP_DATA_DIR}/sub'')]]) \<and>
   ''demo/sub'' \<notin> set ([] :: string list) \<and>
   lintDockerComposeYml demoEnv demo_no_target [] ''demo'' = Inr []"
  by code_simp

text \<open>
  C10 (as amended).  A string entry whose source is the placeholder, braced or not, with or
  without a trailing slash, pushes no diagnostic in the missing-file loop, whatever the
  files are, and pushes the direct-mount warning in the loop before it; so does an
  object entry with such a source and a target, and an object entry without a target
  pushes nothing in either loop.  The two diagnostics are not exclusive for every entry:
  a string entry whose source continues with a non-empty subpath, free of colons and
  line terminators, gets the missing-file error when the path is not among the files,
  and gets the direct-mount warning exactly when the text after the placeholder and the
  slash holds the placeholder directly followed by a colon or by a slash and a colon,
  as in \<open>${APP_DATA_DIR}/sub/$APP_DATA_DIR:/data\<close>.  When both texts parse, the mocked
  document is schema-valid and the validator returns, every diagnostic of the result
  with id \<open>missing_file_or_directory\<close> is the one diagnostic pushed for some entry, and
  none names the path made of the app id and a slash alone.
\<close>

theorem C10_direct_mount_no_missing_file:
  assumes "placeholder ph" "mnt = ph \<or> mnt = ph @ ''/''"
  shows
    "missingFileVolume E content files appId service (Str (mnt @ '':'' @ target)) result = Inr result \<and>
     directMountVolume E content service (Str (mnt @ '':'' @ target)) result =
       Inr (result @ [invalidDirectMount E content service (mnt @ '':'' @ target)
          (stringMountHint (mnt @ '':'' @ target))]) \<and>
     (map_of kvs ''source'' = Some (Str mnt) \<and> map_of kvs ''target'' = Some t \<longrightarrow>
        missingFileVolume E content files appId service (Obj kvs) result = Inr result \<and>
        directMountVolume E content service (Obj kvs) result =
          Inr (result @ [invalidDirectMount E content service
             (mnt @ '':'' @ ToString (Number_toString E) t) (objectMountHint E t)])) \<and>
     (sub \<noteq> [] \<and> CHR '':'' \<notin> set sub \<and> (\<forall>c\<in>set sub. \<not> LineTerminator c) \<longrightarrow>
        directMountVolume E content service (Str (ph @ ''/'' @ sub @ '':'' @ target)) result =
          (if directMountText (sub @ '':'' @ target)
           then Inr (result @ [invalidDirectMount E content service (ph @ ''/'' @ sub @ '':'' @ target)
              (stringMountHint (ph @ ''/'' @ sub @ '':'' @ target))])
           else Inr result) \<and>
        missingFileVolume E content files appId service (Str (ph @ ''/'' @ sub @ '':'' @ target)) result =
          (if appId @ ''/'' @ sub \<notin> set files
           then Inr (result @ [missingFileOrDirectory E content appId service sub
              (ph @ ''/'' @ sub @ '':'' @ target)])
           else Inr result)) \<and>
     (YAML_parse E True (mockVariables E content) = Inr mocked \<and> fst (validate E mocked) \<and>
      YAML_parse E True content = Inr doc \<and> lintDockerComposeYml E content files appId = Inr rs \<and>
      d \<in> set rs \<and> id' d = missing_file_or_directory \<longrightarrow>
        (\<exists>service\<in>set (serviceNames doc). \<exists>vols. serviceVolumes doc service = Inr (Arr vols) \<and>
           (\<exists>volume\<in>set vols. missingFileVolume E content files appId service volume [] = Inr [d])) \<and>
        title d \<noteq> title (missingFileOrDirectory E content appId service [] shown)) \<and>
     (''target'' \<notin> fst ` set kvs' \<longrightarrow>
        missingFileVolume E content files appId service (Obj kvs') result = Inr result \<and>
        directMountVolume E content service (Obj kvs') result = Inr result)"
proof -
  have string: "missingFileVolume E content files appId service (Str (mnt @ '':'' @ target)) result = Inr result"
    by (rule missingFileVolume_string_root [OF assms])
  have warned: "directMountVolume E content service (Str (mnt @ '':'' @ target)) result =
       Inr (result @ [invalidDirectMount E content service (mnt @ '':'' @ target)
          (stringMountHint (mnt @ '':'' @ target))])"
    by (rule directMountVolume_string_root [OF assms])
  have object: "missingFileVolume E content files appId service (Obj kvs) result = Inr result \<and>
        directMountVolume E content service (Obj kvs) result =
          Inr (result @ [invalidDirectMount E content service
             (mnt @ '':'' @ ToString (Number_toString E) t) (objectMountHint E t)])"
    if "map_of kvs ''source'' = Some (Str mnt)" "map_of kvs ''target'' = Some t"
    using missingFileVolume_object_root [OF assms that] directMountVolume_object_root [OF assms that]
    by (rule conjI)
  have subpath: "directMountVolume E content service (Str (ph @ ''/'' @ sub @ '':'' @ target)) result =
          (if directMountText (sub @ '':'' @ target)
           then Inr (result @ [invalidDirectMount E content service (ph @ ''/'' @ sub @ '':'' @ target)
              (stringMountHint (ph @ ''/'' @ sub @ '':'' @ target))])
           else Inr result) \<and>
        missingFileVolume E content files appId service (Str (ph @ ''/'' @ sub @ '':'' @ target)) result =
          (if appId @ ''/'' @ sub \<notin> set files
           then Inr (result @ [missingFileOrDirectory E content appId service sub
              (ph @ ''/'' @ sub @ '':'' @ target)])
           else Inr result)"
    if s: "sub \<noteq> []" "CHR '':'' \<notin> set sub" "\<forall>c\<in>set sub. \<not> LineTerminator c"
  proof -
    have "hd sub \<noteq> CHR '':''" using s(1) s(2) by (cases sub) auto
    then have "directMountText (ph @ ''/'' @ sub @ '':'' @ target) \<longleftrightarrow> directMountText (sub @ '':'' @ target)"
      by (rule directMountText_subpath [OF assms(1) s(1)])
    then have "directMountVolume E content service (Str (ph @ ''/'' @ sub @ '':'' @ target)) result =
          (if directMountText (sub @ '':'' @ target)
           then Inr (result @ [invalidDirectMount E content service (ph @ ''/'' @ sub @ '':'' @ target)
              (stringMountHint (ph @ ''/'' @ sub @ '':'' @ target))])
           else Inr result)"
      unfolding directMountVolume_string by simp
    then show ?thesis
      using missingFileVolume_string_subpath [OF assms(1) s(1) s(3) s(2)] by (rule conjI)
  qed
  have bare: "missingFileVolume E content files appId service (Obj kvs') result = Inr result \<and>
        directMountVolume E content service (Obj kvs') result = Inr result"
    if "''target'' \<notin> fst ` set kvs'"
    using volume_without_target(2) [OF that] volume_without_target(1) [OF that] by (rule conjI)
  have whole: "(\<exists>service\<in>set (serviceNames doc). \<exists>vols. serviceVolumes doc service = Inr (Arr vols) \<and>
           (\<exists>volume\<in>set vols. missingFileVolume E content files appId service volume [] = Inr [d])) \<and>
        title d \<noteq> title (missingFileOrDirectory E content appId service [] shown)"
    if ctx: "YAML_parse E True (mockVariables E content) = Inr mocked" "fst (validate E mocked)"
      "YAML_parse E True content = Inr doc" "lintDockerComposeYml E content files appId = Inr rs"
      and d: "d \<in> set rs" "id' d = missing_file_or_directory"
  proof
    show "\<exists>service\<in>set (serviceNames doc). \<exists>vols. serviceVolumes doc service = Inr (Arr vols) \<and>
           (\<exists>volume\<in>set vols. missingFileVolume E content files appId service volume [] = Inr [d])"
      using compose_missing_origin [OF ctx, of d] d by blast
    from missing_title_names_path [OF ctx d, of service shown]
    obtain match where m: "match \<noteq> []"
      "title d = title (missingFileOrDirectory E content appId service match shown)"
      by blast
    show "title d \<noteq> title (missingFileOrDirectory E content appId service [] shown)"
      unfolding m(2) missing_title_inject by (rule m(1))
  qed
  show ?thesis
    apply (intro conjI impI)
    subgoal by (rule string)
    subgoal by (rule warned)
    subgoal using object by blast
    subgoal using object by blast
    subgoal using subpath by blast
    subgoal using subpath by blast
    subgoal using whole by blast
    subgoal using whole by blast
    subgoal using bare by blast
    subgoal using bare by blast
    done
qed

theorem C10_witness:
  "missingFileVolume demoEnv demo_compose [] ''demo'' ''web'' (Str ''${APP_DATA_DIR}:/data'') [] = Inr [] \<and>
   missingFileVolume demoEnv demo_compose [] ''demo'' ''web'' (Str ''$APP_DATA_DIR/:/data'') [] = Inr [] \<and>
   missingFileVolume demoEnv demo_compose [] ''demo'' ''web''
     (Obj [(''source'', Str ''${APP_DATA_DIR}/''), (''target'', Str ''/x'')]) [] = Inr [] \<and>
   directMountVolume demoEnv demo_compose ''web'' (Str ''${APP_DATA_DIR}/sub:/data'') [] = Inr [] \<and>
   missingFileVolume demoEnv demo_compose [] ''demo'' ''web'' (Str ''${APP_DATA_DIR}/sub:/data'') [] =
     Inr [missingFileOrDirectory demoEnv demo_compose ''demo'' ''web'' ''sub'' ''${APP_DATA_DIR}/sub:/data''] \<and>
   filter (\<lambda>d. id' d = missing_file_or_directory) (projr (lintDockerComposeYml demoEnv demo_compose [] ''demo''))
     = [missingFileOrDirectory demoEnv demo_compose ''demo'' ''web'' ''sub'' ''${APP_DATA_DIR}/sub:/data''] \<and>
   title (missingFileOrDirectory demoEnv demo_compose ''demo'' ''web'' ''sub'' ''${APP_DATA_DIR}/sub:/data'')
     \<noteq> title (missingFileOrDirectory demoEnv demo_compose ''demo'' ''web'' [] []) \<and>
   directMountVolume demoEnv demo_nested ''web'' (Str ''${APP_DATA_DIR}/sub/$APP_DATA_DIR:/data'') [] =
     Inr [invalidDirectMount demoEnv demo_nested ''web'' ''${APP_DATA_DIR}/sub/$APP_DATA_DIR:/data''
       (stringMountHint ''${APP_DATA_DIR}/sub/$APP_DATA_DIR:/data'')] \<and>
   missingFileVolume demoEnv demo_nested [] ''demo'' ''web'' (Str ''${APP_DATA_DIR}/sub/$APP_DATA_DIR:/data'') [] =
     Inr [missingFileOrDirectory demoEnv demo_nested ''demo'' ''web'' ''sub/$APP_DATA_DIR''
       ''${APP_DATA_DIR}/sub/$APP_DATA_DIR:/data''] \<and>
   missingFileVolume demoEnv demo_no_target [] ''demo'' ''web''
     (Obj [(''type'', Str ''bind''), (''source'', Str ''${APP_DATA_DIR}'')]) [] = Inr []"
proof -
  have ph: "placeholder ''${APP_DATA_DIR}''" "placeholder ''$APP_DATA_DIR''"
    by code_simp+
  have a: "missingFileVolume demoEnv demo_compose [] ''demo'' ''web'' (Str ''${APP_DATA_DIR}:/data'') [] = Inr []"
    using C10_direct_mount_no_missing_file [OF ph(1), where mnt = "''${APP_DATA_DIR}''"
        and target = "''/data''" and result = "[]", THEN conjunct1]
    by simp
  have b: "missingFileVolume demoEnv demo_compose [] ''demo'' ''web'' (Str ''$APP_DATA_DIR/:/data'') [] = Inr []"
    using C10_direct_mount_no_missing_file [OF ph(2), where mnt = "''$APP_DATA_DIR/''"
        and target = "''/data''" and result = "[]", THEN conjunct1]
    by simp
  have c: "missingFileVolume demoEnv demo_compose [] ''demo'' ''web''
     (Obj [(''source'', Str ''${APP_DATA_DIR}/''), (''target'', Str ''/x'')]) [] = Inr []"
    using C10_direct_mount_no_missing_file [OF ph(1), where mnt = "''${APP_DATA_DIR}/''"
        and kvs = "[(''source'', Str ''${APP_DATA_DIR}/''), (''target'', Str ''/x'')]"
        and t = "Str ''/x''" and result = "[]", THEN conjunct2, THEN conjunct2, THEN conjunct1]
    by simp
  have sub: "''sub'' \<noteq> [] \<and> CHR '':'' \<notin> set ''sub'' \<and> (\<forall>c\<in>set ''sub''. \<not> LineTerminator c)"
    by code_simp
  have plain: "\<not> directMountText (''sub'' @ '':'' @ ''/data'')"
    "directMountText (''sub/$APP_DATA_DIR'' @ '':'' @ ''/data'')"
    by code_simp+
  have m: "''${APP_DATA_DIR}'' = ''${APP_DATA_DIR}'' \<or> ''${APP_DATA_DIR}'' = ''${APP_DATA_DIR}'' @ ''/''"
    by simp
  note s = C10_direct_mount_no_missing_file [OF ph(1) m, where
        sub = "''sub''" and target = "''/data''" and result = "[]" and files = "[]",
        THEN conjunct2, THEN conjunct2, THEN conjunct2, THEN conjunct1, THEN mp, OF sub]
  have d: "directMountVolume demoEnv demo_compose ''web'' (Str ''${APP_DATA_DIR}/sub:/data'') [] = Inr []"
    using s [THEN conjunct1] plain(1) by simp
  have e: "missingFileVolume demoEnv demo_compose [] ''demo'' ''web'' (Str ''${APP_DATA_DIR}/sub:/data'') [] =
     Inr [missingFileOrDirectory demoEnv demo_compose ''demo'' ''web'' ''sub'' ''${APP_DATA_DIR}/sub:/data'']"
    using s [THEN conjunct2] by simp
  have f: "filter (\<lambda>d. id' d = missing_file_or_directory) (projr (lintDockerComposeYml demoEnv demo_compose [] ''demo''))
     = [missingFileOrDirectory demoEnv demo_compose ''demo'' ''web'' ''sub'' ''${APP_DATA_DIR}/sub:/data'']"
    by code_simp
  have ctx: "YAML_parse demoEnv True (mockVariables demoEnv demo_compose) = Inr (demo_services ''/data-dir'') \<and>
    fst (validate demoEnv (demo_services ''/data-dir'')) \<and>
    YAML_parse demoEnv True demo_compose = Inr (demo_services ''${APP_DATA_DIR}'') \<and>
    lintDockerComposeYml demoEnv demo_compose [] ''demo'' = Inr (projr (lintDockerComposeYml demoEnv demo_compose [] ''demo'')) \<and>
    missingFileOrDirectory demoEnv demo_compose ''demo'' ''web'' ''sub'' ''${APP_DATA_DIR}/sub:/data''
      \<in> set (projr (lintDockerComposeYml demoEnv demo_compose [] ''demo'')) \<and>
    id' (missingFileOrDirectory demoEnv demo_compose ''demo'' ''web'' ''sub'' ''${APP_DATA_DIR}/sub:/data'')
      = missing_file_or_directory"
    by code_simp
  have g: "title (missingFileOrDirectory demoEnv demo_compose ''demo'' ''web'' ''sub'' ''${APP_DATA_DIR}/sub:/data'')
     \<noteq> title (missingFileOrDirectory demoEnv demo_compose ''demo'' ''web'' [] [])"
    using C10_direct_mount_no_missing_file [OF ph(1) m, where service = "''web''" and shown = "[]",
        THEN conjunct2, THEN conjunct2, THEN conjunct2, THEN conjunct2, THEN conjunct1, THEN mp, OF ctx,
        THEN conjunct2] .
  have nested: "''sub/$APP_DATA_DIR'' \<noteq> [] \<and> CHR '':'' \<notin> set ''sub/$APP_DATA_DIR'' \<and>
      (\<forall>c\<in>set ''sub/$APP_DATA_DIR''. \<not> LineTerminator c)"
    by code_simp
  note n = C10_direct_mount_no_missing_file [OF ph(1) m, where
        sub = "''sub/$APP_DATA_DIR''" and target = "''/data''" and result = "[]" and files = "[]",
        THEN conjunct2, THEN conjunct2, THEN conjunct2, THEN conjunct1, THEN mp, OF nested]
  have h: "directMountVolume demoEnv demo_nested ''web'' (Str ''${APP_DATA_DIR}/sub/$APP_DATA_DIR:/data'') [] =
     Inr [invalidDirectMount demoEnv demo_nested ''web'' ''${APP_DATA_DIR}/sub/$APP_DATA_DIR:/data''
       (stringMountHint ''${APP_DATA_DIR}/sub/$APP_DATA_DIR:/data'')]"
    using n [THEN conjunct1] plain(2) by simp
  have i: "missingFileVolume demoEnv demo_nested [] ''demo'' ''web'' (Str ''${APP_DATA_DIR}/sub/$APP_DATA_DIR:/data'') [] =
     Inr [missingFileOrDirectory demoEnv demo_nested ''demo'' ''web'' ''sub/$APP_DATA_DIR''
       ''${APP_DATA_DIR}/sub/$APP_DATA_DIR:/data'']"
    using n [THEN conjunct2] by simp
  have j: "missingFileVolume demoEnv demo_no_target [] ''demo'' ''web''
     (Obj [(''type'', Str ''bind''), (''source'', Str ''${APP_DATA_DIR}'')]) [] = Inr []"
    using C10_direct_mount_no_missing_file [OF ph(1) m,
        where kvs' = "[(''type'', Str ''bind''), (''source'', Str ''${APP_DATA_DIR}'')]" and result = "[]",
        THEN conjunct2, THEN conjunct2, THEN conjunct2, THEN conjunct2, THEN conjunct2]
    by simp
  show ?thesis using a b c d e f g h i j by (intro conjI)
qed

text \<open>
  C10 as stated fails in its last clause: the one entry of this document gets both the
  direct-mount warning and the missing-file error.
\<close>

theorem C10_counterexample:
  "YAML_parse demoEnv True demo_nested = Inr (demo_volume_doc (Str ''${APP_DATA_DIR}/sub/$APP_DATA_DIR:/data'')) \<and>
   serviceVolumes (demo_volume_doc (Str ''${APP_DATA_DIR}/sub/$APP_DATA_DIR:/data'')) ''web''
     = Inr (Arr [Str ''${APP_DATA_DIR}/sub/$APP_DATA_DIR:/data'']) \<and>
   lintDockerComposeYml demoEnv demo_nested [] ''demo''
     = Inr [invalidDirectMount demoEnv demo_nested ''web'' ''${APP_DATA_DIR}/sub/$APP_DATA_DIR:/data''
         (stringMountHint ''${APP_DATA_DIR}/sub/$APP_DATA_DIR:/data''),
       missingFileOrDirectory demoEnv demo_nested ''demo'' ''web'' ''sub/$APP_DATA_DIR''
         ''${APP_DATA_DIR}/sub/$APP_DATA_DIR:/data'']"
  by code_simp

text \<open>
  C9.  Every diagnostic of the app store validator and of the app validator is an error.
  A diagnostic of the compose validator with id \<open>invalid_app_data_dir_volume_mount\<close> is
  a warning; one with id \<open>invalid_docker_image_name\<close> is either the error for an image
  of a service of the mocked document that does not match the pattern, or the warning
  for one that matches with the tag \<open>latest\<close>; every other one is an error.  None has
  severity \<open>info\<close>.
\<close>

theorem C9_severities:
  "(\<forall>d\<in>set (lintUmbrelAppStoreYml E content). severity d = error) \<and>
   (lintUmbrelAppYml E content options = Inr rs \<longrightarrow> (\<forall>d\<in>set rs. severity d = error)) \<and>
   (lintDockerComposeYml E content files appId = Inr rs' \<longrightarrow>
      (\<forall>d\<in>set rs'.
         (id' d = invalid_app_data_dir_volume_mount \<longrightarrow> severity d = warning) \<and>
         (id' d = invalid_docker_image_name \<longrightarrow>
            (\<exists>mocked service img. YAML_parse E True (mockVariables E content) = Inr mocked \<and>
               service \<in> set (serviceNames mocked) \<and>
               serviceMember mocked service ''image'' = Inr (Str img) \<and>
               (String_match img re_image = None \<and> d = invalidImageName E content service img \<and>
                  severity d = error \<or>
                imageVersion img = Some ''latest'' \<and> d = invalidImageTag E content service ''latest'' \<and>
                  severity d = warning))) \<and>
         (id' d \<noteq> invalid_app_data_dir_volume_mount \<and> id' d \<noteq> invalid_docker_image_name \<longrightarrow>
            severity d = error) \<and>
         severity d \<noteq> info))"
proof -
  have store: "\<forall>d\<in>set (lintUmbrelAppStoreYml E content). severity d = error"
    by (auto simp: lintUmbrelAppStoreYml_def split: sum.splits)
  have app: "\<forall>d\<in>set rs. severity d = error" if "lintUmbrelAppYml E content options = Inr rs"
    using lintUmbrelAppYml_cases [OF that] by auto
  show ?thesis
    apply (intro conjI impI ballI)
    subgoal by (rule store [rule_format])
    subgoal using app by blast
    subgoal using compose_severity by blast
    subgoal using compose_severity by blast
    subgoal using compose_severity by blast
    subgoal using compose_severity by blast
    done
qed

theorem C9_witness:
  "zodViolation demoEnv demo_compose (ZodIssue ''invalid_type'' [Key ''name''] ''Required'')
     \<in> set (lintUmbrelAppStoreYml demoEnv demo_compose) \<and>
   severity (zodViolation demoEnv demo_compose (ZodIssue ''invalid_type'' [Key ''name''] ''Required'')) = error \<and>
   invalidSubmissionField demoEnv (Str ''https://github.com/getumbrel/umbrel-apps/pull/1'') ''pr''
     \<in> set (projr (lintUmbrelAppYml demoEnv demo_manifest \<lparr>isNewAppSubmission = Some True, pullRequestUrl = Some ''pr''\<rparr>)) \<and>
   severity (invalidSubmissionField demoEnv (Str ''https://github.com/getumbrel/umbrel-apps/pull/1'') ''pr'') = error \<and>
   invalidDirectMount demoEnv demo_compose ''web'' ''${APP_DATA_DIR}:/data'' (stringMountHint ''${APP_DATA_DIR}:/data'')
     \<in> set (projr (lintDockerComposeYml demoEnv demo_compose [] ''demo'')) \<and>
   severity (invalidDirectMount demoEnv demo_compose ''web'' ''${APP_DATA_DIR}:/data''
     (stringMountHint ''${APP_DATA_DIR}:/data'')) = warning \<and>
   invalidBooleanValue demoEnv demo_compose ''web'' ''environment'' ''DEBUG'' (Bool True)
     \<in> set (projr (lintDockerComposeYml demoEnv demo_compose [] ''demo'')) \<and>
   severity (invalidBooleanValue demoEnv demo_compose ''web'' ''environment'' ''DEBUG'' (Bool True)) = error \<and>
   invalidImageTag demoEnv demo_compose ''db'' ''latest''
     \<in> set (projr (lintDockerComposeYml demoEnv demo_compose [] ''demo'')) \<and>
   severity (invalidImageTag demoEnv demo_compose ''db'' ''latest'') \<noteq> info"
proof -
  let ?options = "\<lparr>isNewAppSubmission = Some True, pullRequestUrl = Some ''pr''\<rparr>"
  let ?z = "zodViolation demoEnv demo_compose (ZodIssue ''invalid_type'' [Key ''name''] ''Required'')"
  let ?s = "invalidSubmissionField demoEnv (Str ''https://github.com/getumbrel/umbrel-apps/pull/1'') ''pr''"
  let ?m = "invalidDirectMount demoEnv demo_compose ''web'' ''${APP_DATA_DIR}:/data''
     (stringMountHint ''${APP_DATA_DIR}:/data'')"
  let ?b = "invalidBooleanValue demoEnv demo_compose ''web'' ''environment'' ''DEBUG'' (Bool True)"
  let ?i = "invalidImageTag demoEnv demo_compose ''db'' ''latest''"
  have run: "lintUmbrelAppYml demoEnv demo_manifest ?options
      = Inr (projr (lintUmbrelAppYml demoEnv demo_manifest ?options))"
    "lintDockerComposeYml demoEnv demo_compose [] ''demo''
      = Inr (projr (lintDockerComposeYml demoEnv demo_compose [] ''demo''))"
    by code_simp+
  have mem: "?z \<in> set (lintUmbrelAppStoreYml demoEnv demo_compose)"
    "?s \<in> set (projr (lintUmbrelAppYml demoEnv demo_manifest ?options))"
    "?m \<in> set (projr (lintDockerComposeYml demoEnv demo_compose [] ''demo''))"
    "?b \<in> set (projr (lintDockerComposeYml demoEnv demo_compose [] ''demo''))"
    "?i \<in> set (projr (lintDockerComposeYml demoEnv demo_compose [] ''demo''))"
    by code_simp+
  have ids: "id' ?m = invalid_app_data_dir_volume_mount"
    "id' ?b \<noteq> invalid_app_data_dir_volume_mount \<and> id' ?b \<noteq> invalid_docker_image_name"
    by simp_all
  note t = C9_severities [where E = demoEnv and content = demo_compose and files = "[]"
      and appId = "''demo''", THEN conjunct2, THEN conjunct2, THEN mp, OF run(2), THEN bspec]
  have z: "severity ?z = error"
    using C9_severities [where E = demoEnv and content = demo_compose, THEN conjunct1, THEN bspec, OF mem(1)] .
  have s: "severity ?s = error"
    using C9_severities [where E = demoEnv and content = demo_manifest and options = ?options,
        THEN conjunct2, THEN conjunct1, THEN mp, OF run(1), THEN bspec, OF mem(2)] .
  have m: "severity ?m = warning"
    using t [OF mem(3), THEN conjunct1, THEN mp, OF ids(1)] .
  have b: "severity ?b = error"
    using t [OF mem(4), THEN conjunct2, THEN conjunct2, THEN conjunct1, THEN mp, OF ids(2)] .
  have i: "severity ?i \<noteq> info"
    using t [OF mem(5), THEN conjunct2, THEN conjunct2, THEN conjunct2] .
  show ?thesis using mem(1) z mem(2) s mem(3) m mem(4) b mem(5) i by (intro conjI)
qed

end
